theory Spec2Isabelle
  imports Main "HOL-Library.Word"
begin

text \<open>
  A shallow embedding of the single-page-application router \<open>createRouter\<close>: the
  pattern compiler, path normalisation, route resolution and the navigation sequence with
  its cancellation tokens, followed by the properties of the specification that are
  proved of it.
\<close>

section \<open>Strings\<close>

text \<open>
  A JavaScript string is a sequence of UTF-16 code units. A string literal of the source
  is written \<open>str ''...''\<close>, a character literal \<open>cu CHR ''c''\<close>.
\<close>

type_synonym code_unit = "16 word"

type_synonym jsstring = "code_unit list"

definition str :: "string \<Rightarrow> jsstring" where
  "str s = map (\<lambda>c. of_nat (of_char c)) s"

definition cu :: "char \<Rightarrow> code_unit" where
  "cu c = of_nat (of_char c)"

definition slash :: code_unit where
  "slash = 0x2F"

definition backslash :: code_unit where
  "backslash = 0x5C"

text \<open>
\<open>s.startsWith(t)\<close> and \<open>s.endsWith(t)\<close>.
\<close>

definition startsWith :: "jsstring \<Rightarrow> jsstring \<Rightarrow> bool" where
  "startsWith s t = (take (length t) s = t)"

definition endsWith :: "jsstring \<Rightarrow> jsstring \<Rightarrow> bool" where
  "endsWith s t = (length t \<le> length s \<and> drop (length s - length t) s = t)"

section \<open>The pattern compiler\<close>

text \<open>
  \<open>compilePattern(pattern)\<close> splits the template on the parameter token (a colon, an
  ASCII letter or underscore, then letters, digits and underscores), maps the parts by
  index (odd index: push the name, emit the capture group; even index: escape the regular
  expression metacharacters), joins them and builds \<open>new RegExp('^' + regexStr + '$')\<close>.

  \<open>match_param\<close> is one match of the token at the start of a string: the name and the
  rest behind it. \<open>split_from\<close> is \<open>String.prototype.split\<close> with that
  separator: the literal collected so far, then the rest of the template. The result
  alternates literal, name, literal, ..., literal.
\<close>

definition is_ident_start :: "code_unit \<Rightarrow> bool" where
  "is_ident_start c \<longleftrightarrow>
     (cu CHR ''a'' \<le> c \<and> c \<le> cu CHR ''z'') \<or> (cu CHR ''A'' \<le> c \<and> c \<le> cu CHR ''Z'')
     \<or> c = cu CHR ''_''"

definition is_ident_char :: "code_unit \<Rightarrow> bool" where
  "is_ident_char c \<longleftrightarrow> is_ident_start c \<or> (cu CHR ''0'' \<le> c \<and> c \<le> cu CHR ''9'')"

fun match_param :: "jsstring \<Rightarrow> (jsstring \<times> jsstring) option" where
  "match_param (c # d # s) =
     (if c = cu CHR '':'' \<and> is_ident_start d
      then Some (d # takeWhile is_ident_char s, dropWhile is_ident_char s)
      else None)"
| "match_param _ = None"

lemma match_param_shorter:
  "match_param s = Some (name, rest) \<Longrightarrow> length rest < length s"
  by (cases s rule: match_param.cases)
     (auto split: if_splits intro: le_less_trans [OF length_dropWhile_le])

function split_from :: "jsstring \<Rightarrow> jsstring \<Rightarrow> jsstring list" where
  "split_from lit [] = [lit]"
| "split_from lit (c # s) =
     (case match_param (c # s) of
        Some (name, rest) \<Rightarrow> lit # name # split_from [] rest
      | None \<Rightarrow> split_from (lit @ [c]) s)"
  by pat_completeness auto
termination
  by (relation "measure (\<lambda>(lit, s). length s)") (auto dest: match_param_shorter)

definition split_params :: "jsstring \<Rightarrow> jsstring list" where
  "split_params pattern = split_from [] pattern"

text \<open>
  The metacharacters that \<open>part.replace(...)\<close> prefixes with a backslash.
\<close>

definition syntax_chars :: jsstring where
  "syntax_chars = str ''.*+?^${}()|[]'' @ [backslash]"

definition escape_re :: "jsstring \<Rightarrow> jsstring" where
  "escape_re part = concat (map (\<lambda>c. if c \<in> set syntax_chars then [backslash, c] else [c]) part)"

text \<open>
  Errors the modelled code can throw: those of the \<open>RegExp\<close> and \<open>URL\<close>
  constructors and of \<open>decodeURIComponent\<close>, the error of \<open>getRoot\<close>, whatever a
  view handler throws, and the exception of the history object.
\<close>

datatype error =
    SyntaxError | URIError | TypeError | RootNotFound | CollaboratorError | SecurityError

text \<open>
  The \<open>RegExp\<close> constructor, for the fragment of the pattern language that
  \<open>compilePattern\<close> can emit: the anchors, a character standing for itself, a
  metacharacter escaped by a backslash, and the capture group of one or more non-slash
  characters. Any other source text is outside the fragment (\<open>None\<close>); that the
  compiler never leaves the fragment is proved below.
\<close>

datatype re_item = Bol | Eol | Lit code_unit | Grp

function RegExp_parse :: "jsstring \<Rightarrow> re_item list option" where
  "RegExp_parse [] = Some []"
| "RegExp_parse (c # s) =
     (if c = backslash then
        (case s of
           [] \<Rightarrow> None
         | d # s' \<Rightarrow> if d \<in> set syntax_chars then map_option ((#) (Lit d)) (RegExp_parse s') else None)
      else if c = cu CHR ''^'' then map_option ((#) Bol) (RegExp_parse s)
      else if c = cu CHR ''$'' then map_option ((#) Eol) (RegExp_parse s)
      else if c = cu CHR ''('' then
        (if take 6 s = str ''[^/]+)'' then map_option ((#) Grp) (RegExp_parse (drop 6 s)) else None)
      else if c \<in> set syntax_chars then None
      else map_option ((#) (Lit c)) (RegExp_parse s))"
  by pat_completeness auto
termination
  by (relation "measure length") auto

fun regex_pieces :: "nat \<Rightarrow> jsstring list \<Rightarrow> jsstring list" where
  "regex_pieces i [] = []"
| "regex_pieces i (part # parts) =
     (if i mod 2 = 1 then str ''([^/]+)'' else escape_re part) # regex_pieces (i + 1) parts"

fun pushed_names :: "nat \<Rightarrow> jsstring list \<Rightarrow> jsstring list" where
  "pushed_names i [] = []"
| "pushed_names i (part # parts) =
     (if i mod 2 = 1 then part # pushed_names (i + 1) parts else pushed_names (i + 1) parts)"

text \<open>
  \<open>compilePattern\<close> returns the object \<open>{ regex, paramNames }\<close>, here the pair.
\<close>

type_synonym compiled_pattern = "re_item list \<times> jsstring list"

definition compilePattern :: "jsstring \<Rightarrow> error + compiled_pattern" where
  "compilePattern pattern =
     (let parts = split_params pattern;
          regexStr = concat (regex_pieces 0 parts)
      in case RegExp_parse (str ''^'' @ regexStr @ str ''$'') of
           None \<Rightarrow> Inl SyntaxError
         | Some r \<Rightarrow> Inr (r, pushed_names 0 parts))"

(* spec-level *)

section \<open>Matching\<close>

text \<open>
  \<open>p.match(regex)\<close> for a regular expression without flags: the backtracking
  matcher is tried at every start position from the left; a group is greedy (longest run
  first, then shorter ones). The result is the array of the whole match followed by the
  captures, or \<open>None\<close> for \<open>null\<close>. The flag of \<open>rmatch\<close> says whether the
  position is the start of the input.
\<close>

fun greedy :: "(nat \<Rightarrow> 'a option) \<Rightarrow> nat \<Rightarrow> 'a option" where
  "greedy f 0 = None"
| "greedy f (Suc n) = (case f (Suc n) of Some r \<Rightarrow> Some r | None \<Rightarrow> greedy f n)"

fun rmatch :: "re_item list \<Rightarrow> bool \<Rightarrow> jsstring \<Rightarrow> (jsstring \<times> jsstring list) option" where
  "rmatch [] at0 s = Some ([], [])"
| "rmatch (Bol # r) at0 s = (if at0 then rmatch r at0 s else None)"
| "rmatch (Eol # r) at0 s = (if s = [] then rmatch r at0 s else None)"
| "rmatch (Lit c # r) at0 s =
     (case s of
        [] \<Rightarrow> None
      | d # s' \<Rightarrow>
          if d = c then map_option (\<lambda>(w, caps). (d # w, caps)) (rmatch r False s') else None)"
| "rmatch (Grp # r) at0 s =
     greedy
       (\<lambda>n. map_option (\<lambda>(w, caps). (take n s @ w, take n s # caps)) (rmatch r False (drop n s)))
       (length (takeWhile (\<lambda>c. c \<noteq> slash) s))"

fun re_exec :: "re_item list \<Rightarrow> bool \<Rightarrow> jsstring \<Rightarrow> (jsstring \<times> jsstring list) option" where
  "re_exec r at0 [] = rmatch r at0 []"
| "re_exec r at0 (c # s) =
     (case rmatch r at0 (c # s) of
        Some m \<Rightarrow> Some m
      | None \<Rightarrow> re_exec r False s)"

definition str_match :: "jsstring \<Rightarrow> re_item list \<Rightarrow> jsstring list option" where
  "str_match p r = map_option (\<lambda>(w, caps). w # caps) (re_exec r True p)"

section \<open>Percent-decoding\<close>

text \<open>
  \<open>decodeURIComponent\<close> as ECMAScript defines it: a percent sign must be followed by
  two hexadecimal digits; an octet with the top bit set starts a UTF-8 sequence of two to
  four escaped octets, which must encode a code point (no overlong form, no surrogate,
  at most U+10FFFF); the code point is appended as UTF-16. Everything else throws
  \<open>URIError\<close>.
\<close>

definition hex_digit :: "code_unit \<Rightarrow> nat option" where
  "hex_digit c =
     (if cu CHR ''0'' \<le> c \<and> c \<le> cu CHR ''9'' then Some (unat c - 48)
      else if cu CHR ''a'' \<le> c \<and> c \<le> cu CHR ''f'' then Some (unat c - 87)
      else if cu CHR ''A'' \<le> c \<and> c \<le> cu CHR ''F'' then Some (unat c - 55)
      else None)"

fun percent_octet :: "jsstring \<Rightarrow> (nat \<times> jsstring) option" where
  "percent_octet (p # h # l # s) =
     (if p = cu CHR ''%'' then
        (case (hex_digit h, hex_digit l) of
           (Some a, Some b) \<Rightarrow> Some (16 * a + b, s)
         | _ \<Rightarrow> None)
      else None)"
| "percent_octet _ = None"

fun percent_octets :: "nat \<Rightarrow> jsstring \<Rightarrow> (nat list \<times> jsstring) option" where
  "percent_octets 0 s = Some ([], s)"
| "percent_octets (Suc n) s =
     (case percent_octet s of
        None \<Rightarrow> None
      | Some (b, s') \<Rightarrow>
          (case percent_octets n s' of
             None \<Rightarrow> None
           | Some (bs, s'') \<Rightarrow> Some (b # bs, s'')))"

definition leading_ones :: "nat \<Rightarrow> nat" where
  "leading_ones b =
     (if b < 0x80 then 0 else if b < 0xC0 then 1 else if b < 0xE0 then 2
      else if b < 0xF0 then 3 else if b < 0xF8 then 4 else 5)"

definition utf8_code_point :: "nat list \<Rightarrow> nat option" where
  "utf8_code_point bs =
     (if list_ex (\<lambda>b. b < 0x80 \<or> 0xC0 \<le> b) (tl bs) then None
      else
        let cp = (case bs of
                    [b0, b1] \<Rightarrow> (b0 - 0xC0) * 0x40 + (b1 - 0x80)
                  | [b0, b1, b2] \<Rightarrow> (b0 - 0xE0) * 0x1000 + (b1 - 0x80) * 0x40 + (b2 - 0x80)
                  | [b0, b1, b2, b3] \<Rightarrow>
                      (b0 - 0xF0) * 0x40000 + (b1 - 0x80) * 0x1000 + (b2 - 0x80) * 0x40 + (b3 - 0x80)
                  | _ \<Rightarrow> 0);
            least = (if length bs = 2 then 0x80 else if length bs = 3 then 0x800 else 0x10000)
        in if cp < least \<or> (0xD800 \<le> cp \<and> cp \<le> 0xDFFF) \<or> 0x10FFFF < cp then None
           else Some cp)"

definition utf16_encode :: "nat \<Rightarrow> jsstring" where
  "utf16_encode cp =
     (if cp < 0x10000 then [of_nat cp]
      else [of_nat (0xD800 + (cp - 0x10000) div 0x400), of_nat (0xDC00 + (cp - 0x10000) mod 0x400)])"

lemma percent_octet_shorter: "percent_octet s = Some (b, rest) \<Longrightarrow> length rest < length s"
  by (cases s rule: percent_octet.cases) (auto split: if_splits option.splits)

lemma percent_octets_shorter: "percent_octets n s = Some (bs, rest) \<Longrightarrow> length rest \<le> length s"
proof (induction n arbitrary: s bs)
  case 0
  then show ?case by simp
next
  case (Suc n)
  then show ?case
    by (fastforce split: option.splits prod.splits dest: percent_octet_shorter)
qed

function decode_from :: "jsstring \<Rightarrow> error + jsstring" where
  "decode_from [] = Inr []"
| "decode_from (c # s) =
     (if c \<noteq> cu CHR ''%'' then map_sum id ((#) c) (decode_from s)
      else
        (case percent_octet (c # s) of
           None \<Rightarrow> Inl URIError
         | Some (b, rest) \<Rightarrow>
             if leading_ones b = 0 then map_sum id ((#) (of_nat b)) (decode_from rest)
             else if leading_ones b = 1 \<or> 4 < leading_ones b then Inl URIError
             else
               (case percent_octets (leading_ones b - 1) rest of
                  None \<Rightarrow> Inl URIError
                | Some (bs, rest') \<Rightarrow>
                    (case utf8_code_point (b # bs) of
                       None \<Rightarrow> Inl URIError
                     | Some cp \<Rightarrow> map_sum id ((@) (utf16_encode cp)) (decode_from rest')))))"
  by pat_completeness auto
termination
proof (relation "measure length", goal_cases)
  case 1
  then show ?case by simp
next
  case (2 c s)
  then show ?case by simp
next
  case (3 c s x2 b rest)
  then show ?case using percent_octet_shorter [of "c # s" b rest] by simp
next
  case (4 c s x2 b rest x2a bs rest' cp)
  then have "length rest < length (c # s)" "length rest' \<le> length rest"
    by (auto dest: percent_octet_shorter percent_octets_shorter)
  then show ?case by simp
qed

definition decodeURIComponent :: "jsstring \<Rightarrow> error + jsstring" where
  "decodeURIComponent s = decode_from s"

section \<open>Router configuration\<close>

text \<open>
  A plain object with string values is a map. Assigning the key \<open>__proto__\<close> a string
  creates no property (the inherited setter ignores a value that is neither an object nor
  null).
\<close>

type_synonym jsobj = "jsstring \<rightharpoonup> jsstring"

definition obj_set :: "jsobj \<Rightarrow> jsstring \<Rightarrow> jsstring \<Rightarrow> jsobj" where
  "obj_set obj k v = (if k = str ''__proto__'' then obj else obj(k \<mapsto> v))"

text \<open>
  A view component is an opaque object; the router only asks whether it has a
  \<open>boot\<close> function. A route is \<open>{ path, view, component }\<close>; a compiled route
  adds the fields of \<open>compilePattern(route.path)\<close>; a resolved route is
  \<open>{ path, view, component, params }\<close>. A fallback route may leave \<open>path\<close> out:
  the empty path stands for the absent one (\<open>fallback.path || '/*'\<close>).
\<close>

record component =
  comp_id :: nat
  has_boot :: bool

record route =
  path :: jsstring
  view :: jsstring
  component :: "component option"

record compiled_route = route +
  regex :: "re_item list"
  paramNames :: "jsstring list"

record resolved = route +
  params :: jsobj

record config =
  routes :: "route list"
  store :: bool
  fallback :: "route option"
  debug :: bool

record router_env =
  compiled :: "compiled_route list"
  compiledFallback :: "compiled_route option"
  BASE_PATH :: jsstring
  has_store :: bool
  debug_on :: bool

definition compile_route :: "route \<Rightarrow> jsstring \<Rightarrow> error + compiled_route" where
  "compile_route r template =
     (case compilePattern template of
        Inl e \<Rightarrow> Inl e
      | Inr (rx, names) \<Rightarrow>
          Inr \<lparr>path = path r, view = view r, component = component r,
               regex = rx, paramNames = names\<rparr>)"

fun compile_routes :: "route list \<Rightarrow> error + compiled_route list" where
  "compile_routes [] = Inr []"
| "compile_routes (r # rs) =
     (case compile_route r (path r) of
        Inl e \<Rightarrow> Inl e
      | Inr c \<Rightarrow> (case compile_routes rs of Inl e \<Rightarrow> Inl e | Inr cs \<Rightarrow> Inr (c # cs)))"

text \<open>
  \<open>BASE_PATH\<close> is computed once from the pathname of the resolved
  \<open>base\<close> element's href: \<open>None\<close> when there is no such element or its URL does not
  parse.
\<close>

definition detect_base :: "jsstring option \<Rightarrow> jsstring" where
  "detect_base base_pathname =
     (case base_pathname of
        None \<Rightarrow> []
      | Some p \<Rightarrow> if length p > 1 \<and> endsWith p (str ''/'') then butlast p else p)"

definition createRouter :: "config \<Rightarrow> jsstring option \<Rightarrow> error + router_env" where
  "createRouter cfg base_pathname =
     (case compile_routes (routes cfg) of
        Inl e \<Rightarrow> Inl e
      | Inr cs \<Rightarrow>
          (case (case fallback cfg of
                   None \<Rightarrow> Inr None
                 | Some f \<Rightarrow>
                     map_sum id Some
                       (compile_route f (if path f = [] then str ''/*'' else path f))) of
             Inl e \<Rightarrow> Inl e
           | Inr cf \<Rightarrow>
               Inr \<lparr>compiled = cs, compiledFallback = cf, BASE_PATH = detect_base base_pathname,
                    has_store = store cfg, debug_on = debug cfg\<rparr>))"

section \<open>Paths and route resolution\<close>

text \<open>
  \<open>normalizePath\<close>: the empty (or absent) path is the root; a leading slash is
  prefixed; \<open>/index.html\<close> is the root; one trailing slash is removed from a path
  longer than one character.
\<close>

definition normalizePath :: "jsstring \<Rightarrow> jsstring" where
  "normalizePath p0 =
    (if p0 = [] then str ''/''
     else
       let p = (if hd p0 \<noteq> slash then str ''/'' @ p0 else p0) in
       if p = str ''/index.html'' then str ''/''
       else if length p > 1 \<and> endsWith p (str ''/'') then butlast p
       else p)"

definition stripBase :: "router_env \<Rightarrow> jsstring \<Rightarrow> jsstring" where
  "stripBase env pathname =
     (if BASE_PATH env \<noteq> [] \<and> startsWith pathname (BASE_PATH env) then
        let rest = (if drop (length (BASE_PATH env)) pathname \<noteq> []
                    then drop (length (BASE_PATH env)) pathname else str ''/'')
        in if startsWith rest (str ''/'') then rest else str ''/'' @ rest
      else pathname)"

definition withBase :: "router_env \<Rightarrow> jsstring \<Rightarrow> jsstring" where
  "withBase env pathname =
     (if BASE_PATH env = [] then pathname
      else if pathname = str ''/'' then (if BASE_PATH env \<noteq> [] then BASE_PATH env else str ''/'')
      else BASE_PATH env @ (if startsWith pathname (str ''/'') then [] else str ''/'') @ pathname)"

text \<open>
  \<open>resolve\<close>: the loop over the compiled routes returns at the first match; the
  inner \<open>forEach\<close> assigns \<open>params[name] = decodeURIComponent(match[i + 1])\<close> in
  order, and an exception of the decoder leaves \<open>resolve\<close>. An index outside the
  match array reads \<open>undefined\<close>, which the decoder turns into that word.
\<close>

definition match_index :: "jsstring list \<Rightarrow> nat \<Rightarrow> jsstring" where
  "match_index m i = (if i < length m then m ! i else str ''undefined'')"

fun assign_params :: "nat \<Rightarrow> jsstring list \<Rightarrow> jsstring list \<Rightarrow> jsobj \<Rightarrow> error + jsobj" where
  "assign_params i [] m ps = Inr ps"
| "assign_params i (name # names) m ps =
     (case decodeURIComponent (match_index m (i + 1)) of
        Inl e \<Rightarrow> Inl e
      | Inr v \<Rightarrow> assign_params (i + 1) names m (obj_set ps name v))"

definition fallback_result :: "compiled_route \<Rightarrow> resolved" where
  "fallback_result f =
     \<lparr>path = path f, view = view f, component = component f, params = Map.empty\<rparr>"

fun resolve_loop :: "compiled_route list \<Rightarrow> compiled_route option \<Rightarrow> jsstring \<Rightarrow> error + resolved option" where
  "resolve_loop [] fb p = Inr (map_option fallback_result fb)"
| "resolve_loop (r # rest) fb p =
     (case str_match p (regex r) of
        None \<Rightarrow> resolve_loop rest fb p
      | Some m \<Rightarrow>
          (case assign_params 0 (paramNames r) m Map.empty of
             Inl e \<Rightarrow> Inl e
           | Inr ps \<Rightarrow>
               Inr (Some \<lparr>path = path r, view = view r, component = component r, params = ps\<rparr>)))"

definition resolve :: "router_env \<Rightarrow> jsstring \<Rightarrow> error + resolved option" where
  "resolve env pathname = resolve_loop (compiled env) (compiledFallback env) (normalizePath pathname)"

section \<open>Navigation state\<close>

text \<open>
  \<open>current\<close> is \<open>{ viewKey, unboot, path, search }\<close>; what \<open>boot\<close> returned is a
  function (identified by a number) or something else. An \<open>AbortController\<close> is
  identified by its number in order of creation; \<open>aborted\<close> lists the controllers whose
  signal is aborted.

  The world is the closure state of the router (\<open>current\<close>, \<open>navController\<close>,
  \<open>scrollPositions\<close>, \<open>unsubGo\<close>), the controllers, the suspended calls of
  \<open>navigate\<close> (each with its local variables, the frame, at one of the two
  \<open>await\<close> points), and what the router reads and writes around it: the mount
  point, the attributes of the document element, the nav links, the calls made to the
  history object, the scroll offset, the location, the listeners, the store, the calls
  made to view handlers, and the debug console. The selectors of the configuration are
  taken to be valid: the mount point is in the document or not, and the nav links are a
  list of elements, each with its href and the two attributes the router sets.
\<close>

datatype unboot_val = NotFunction | UnbootFn nat

record nav_state =
  viewKey :: "jsstring option"
  unboot :: unboot_val
  cur_path :: "jsstring option"
  cur_search :: jsstring

datatype sval = SBool bool | SStr jsstring | SObj jsobj | SNull

datatype hist_op = PushState jsstring | ReplaceState jsstring

datatype call = CallUnboot nat | CallBoot nat nat jsobj

datatype log_entry =
    LogNoRoute jsstring
  | LogNavigate "jsstring option" jsstring jsstring jsobj
  | LogRouted jsstring jsstring jsobj jsobj

record nav_link =
  href :: jsstring
  active :: bool
  aria_current :: "jsstring option"

record frame =
  fr_appPath :: jsstring
  fr_resolved :: resolved
  fr_searchStr :: jsstring
  fr_signal :: nat
  fr_replace :: bool
  fr_restoreScroll :: bool

datatype stage = AwaitUnboot | AwaitBoot

record world =
  current :: nav_state
  navController :: "nat option"
  scrollPositions :: "(jsstring \<times> int \<times> int) list"
  unsubGo :: bool
  controllers :: nat
  aborted :: "nat list"
  tasks :: "nat \<rightharpoonup> stage \<times> frame"
  next_task :: nat
  root_attached :: bool
  root_children :: "nat list"
  root_tabindex :: "jsstring option"
  root_focused :: bool
  html_transitioning :: "jsstring option"
  html_view :: "jsstring option"
  nav_links :: "nav_link list"
  history_ops :: "hist_op list"
  scroll :: "int \<times> int"
  location_pathname :: jsstring
  location_search :: jsstring
  click_listener :: bool
  popstate_listener :: bool
  store_state :: "jsstring \<rightharpoonup> sval"
  calls :: "call list"
  console :: "log_entry list"

text \<open>
  The functions of the browser the router calls on URLs are parameters:
  \<^item> \<open>usp_parse\<close> and \<open>usp_toString\<close>: parsing and serialising
    \<open>URLSearchParams\<close>;
  \<^item> \<open>url_searchParams u\<close>: the search parameters of
    \<open>new URL(location.origin + u)\<close>, or \<open>None\<close> when the constructor throws
    (the origin of a document without one is the word \<open>null\<close>);
  \<^item> \<open>url_pathname href p s\<close>: the pathname of \<open>new URL(href, location.href)\<close>
    when the location has the pathname \<open>p\<close> and the search \<open>s\<close>, or \<open>None\<close>
    when the constructor throws;
  \<^item> \<open>history_location u\<close>: the pathname and the search of the location after
    \<open>history.pushState({}, '', u)\<close> or \<open>history.replaceState({}, '', u)\<close>, or
    \<open>None\<close> when the browser refuses the URL with a \<open>SecurityError\<close> (a URL of
    another origin, such as one that starts with two slashes and names another host).

  Whether a call into a collaborator throws is an input of each step. A call of
  \<open>navigate\<close> returns (its promise is fulfilled), throws (its promise is rejected) or
  is suspended at an \<open>await\<close>.
\<close>

record host_api =
  usp_parse :: "jsstring \<Rightarrow> (jsstring \<times> jsstring) list"
  usp_toString :: "(jsstring \<times> jsstring) list \<Rightarrow> jsstring"
  url_searchParams :: "jsstring \<Rightarrow> (jsstring \<times> jsstring) list option"
  url_pathname :: "jsstring \<Rightarrow> jsstring \<Rightarrow> jsstring \<Rightarrow> jsstring option"
  history_location :: "jsstring \<Rightarrow> (jsstring \<times> jsstring) option"

record faults =
  set_throws :: bool
  setMany_throws :: bool
  focus_throws :: bool
  unboot_throws :: bool
  boot_throws :: bool

record nav_opts =
  replace :: bool
  search :: jsstring
  restoreScroll :: bool

datatype outcome = Returned | Threw error | Suspended nat

section \<open>The navigation engine\<close>

definition log :: "router_env \<Rightarrow> log_entry \<Rightarrow> world \<Rightarrow> world" where
  "log env e w = (if debug_on env then w\<lparr>console := console w @ [e]\<rparr> else w)"

text \<open>
  \<open>setActiveNav\<close>: for each nav link in order, \<open>new URL(href, location.href)\<close>
  (which throws on an href that does not parse), then the exact and the ancestor-prefix
  comparison. The links before a failing one stay updated.
\<close>

fun setActiveNav_each ::
  "router_env \<Rightarrow> host_api \<Rightarrow> jsstring \<Rightarrow> jsstring \<Rightarrow> jsstring \<Rightarrow> nav_link list
     \<Rightarrow> nav_link list \<times> error option" where
  "setActiveNav_each env host loc_p loc_s pathname [] = ([], None)"
| "setActiveNav_each env host loc_p loc_s pathname (a # as) =
     (case url_pathname host (href a) loc_p loc_s of
        None \<Rightarrow> (a # as, Some TypeError)
      | Some url_pathname_v \<Rightarrow>
          let linkPath = normalizePath (stripBase env url_pathname_v);
              here = normalizePath pathname;
              isExact = (linkPath = here);
              isParent = (\<not> isExact \<and> linkPath \<noteq> str ''/'' \<and> startsWith here linkPath);
              a' = a\<lparr>active := isExact \<or> isParent,
                     aria_current := (if isExact then Some (str ''page'') else None)\<rparr>;
              (rest, err) = setActiveNav_each env host loc_p loc_s pathname as
          in (a' # rest, err))"

definition setActiveNav :: "router_env \<Rightarrow> host_api \<Rightarrow> jsstring \<Rightarrow> world \<Rightarrow> world" where
  "setActiveNav env host pathname w =
     w\<lparr>nav_links :=
         fst (setActiveNav_each env host (location_pathname w) (location_search w) pathname
                (nav_links w))\<rparr>"

definition setActiveNav_error :: "router_env \<Rightarrow> host_api \<Rightarrow> jsstring \<Rightarrow> world \<Rightarrow> error option" where
  "setActiveNav_error env host pathname w =
     snd (setActiveNav_each env host (location_pathname w) (location_search w) pathname
            (nav_links w))"

text \<open>
  \<open>scrollPositions\<close> is a \<open>Map\<close>, kept in insertion order: \<open>set\<close> updates an
  existing key in place and appends a new one; when the size exceeds 50 the first key is
  deleted.
\<close>

definition map_set :: "('k \<times> 'v) list \<Rightarrow> 'k \<Rightarrow> 'v \<Rightarrow> ('k \<times> 'v) list" where
  "map_set m k v =
     (if k \<in> fst ` set m then map (\<lambda>(k', v'). if k' = k then (k', v) else (k', v')) m
      else m @ [(k, v)])"

definition map_delete :: "('k \<times> 'v) list \<Rightarrow> 'k \<Rightarrow> ('k \<times> 'v) list" where
  "map_delete m k = filter (\<lambda>(k', v'). k' \<noteq> k) m"

definition evict_oldest :: "('k \<times> 'v) list \<Rightarrow> ('k \<times> 'v) list" where
  "evict_oldest m =
     (if length m > 50 then (case m of [] \<Rightarrow> m | (k0, v0) # rest \<Rightarrow> map_delete m k0)
      else m)"

definition save_scroll :: "world \<Rightarrow> world" where
  "save_scroll w =
     (case cur_path (current w) of
        None \<Rightarrow> w
      | Some p \<Rightarrow>
          if p = [] then w
          else w\<lparr>scrollPositions := evict_oldest (map_set (scrollPositions w) p (scroll w))\<rparr>)"

definition norm_search :: "jsstring \<Rightarrow> jsstring" where
  "norm_search s =
     (if s \<noteq> [] \<and> startsWith s (str ''?'') then s
      else if s \<noteq> [] then str ''?'' @ s else [])"

text \<open>
  Store writes happen only when a store is configured; one that throws is caught and
  leaves the store as it was.
\<close>

definition store_set :: "router_env \<Rightarrow> bool \<Rightarrow> jsstring \<Rightarrow> sval \<Rightarrow> world \<Rightarrow> world" where
  "store_set env throws k v w =
     (if has_store env \<and> \<not> throws then w\<lparr>store_state := (store_state w)(k \<mapsto> v)\<rparr> else w)"

definition store_setMany :: "router_env \<Rightarrow> bool \<Rightarrow> (jsstring \<times> sval) list \<Rightarrow> world \<Rightarrow> world" where
  "store_setMany env throws kvs w =
     (if has_store env \<and> \<not> throws
      then w\<lparr>store_state := fold (\<lambda>(k, v) st. st(k \<mapsto> v)) kvs (store_state w)\<rparr> else w)"

definition suspend :: "stage \<Rightarrow> frame \<Rightarrow> world \<Rightarrow> outcome \<times> world" where
  "suspend st fr w =
     (Suspended (next_task w),
      w\<lparr>tasks := (tasks w)(next_task w \<mapsto> (st, fr)), next_task := Suc (next_task w)\<rparr>)"

text \<open>
  The steps of \<open>navigate\<close> after the supersession guard, in source order: replace
  \<open>current\<close>, parse the query (\<open>new URL\<close> is not inside a \<open>try\<close>), write the
  route facts in one \<open>setMany\<close>, push or replace the history entry (not inside a
  \<open>try\<close> either; an accepted entry moves the location), set the attributes, update the
  nav links, focus the mount point, scroll.
\<close>

definition commit_current :: "frame \<Rightarrow> unboot_val \<Rightarrow> world \<Rightarrow> world" where
  "commit_current fr unboot_v w =
     w\<lparr>current := \<lparr>viewKey = Some (view (fr_resolved fr)), unboot = unboot_v,
                     cur_path = Some (fr_appPath fr), cur_search = fr_searchStr fr\<rparr>\<rparr>"

definition route_query :: "router_env \<Rightarrow> host_api \<Rightarrow> frame \<Rightarrow> jsobj option" where
  "route_query env host fr =
     map_option (\<lambda>ps. fold (\<lambda>(k, v) q. obj_set q k v) ps Map.empty)
       (url_searchParams host (withBase env (fr_appPath fr) @ fr_searchStr fr))"

definition publish_route :: "router_env \<Rightarrow> faults \<Rightarrow> frame \<Rightarrow> jsobj \<Rightarrow> world \<Rightarrow> world" where
  "publish_route env flt fr query w =
     store_setMany env (setMany_throws flt)
       [(str ''ui.route.view'', SStr (view (fr_resolved fr))),
        (str ''ui.route.path'', SStr (fr_appPath fr)),
        (str ''ui.route.params'', SObj (params (fr_resolved fr))),
        (str ''ui.route.query'', SObj query),
        (str ''ui.route.transitioning'', SBool False)] w"

definition history_url :: "router_env \<Rightarrow> frame \<Rightarrow> jsstring" where
  "history_url env fr = withBase env (fr_appPath fr) @ fr_searchStr fr"

definition update_history :: "router_env \<Rightarrow> frame \<Rightarrow> jsstring \<times> jsstring \<Rightarrow> world \<Rightarrow> world" where
  "update_history env fr loc w =
     w\<lparr>history_ops := history_ops w
         @ [if fr_replace fr then ReplaceState (history_url env fr)
            else PushState (history_url env fr)],
       location_pathname := fst loc, location_search := snd loc\<rparr>"

definition set_view_attrs :: "frame \<Rightarrow> world \<Rightarrow> world" where
  "set_view_attrs fr w =
     w\<lparr>html_view := Some (view (fr_resolved fr)), html_transitioning := Some (str ''off'')\<rparr>"

definition focus_root :: "faults \<Rightarrow> world \<Rightarrow> world" where
  "focus_root flt w =
     (let w1 = (if root_tabindex w = None then w\<lparr>root_tabindex := Some (str ''-1'')\<rparr> else w)
      in if focus_throws flt then w1 else w1\<lparr>root_focused := True\<rparr>)"

definition apply_scroll :: "frame \<Rightarrow> world \<Rightarrow> world" where
  "apply_scroll fr w =
     (if fr_restoreScroll fr then
        (case map_of (scrollPositions w) (fr_appPath fr) of
           Some pos \<Rightarrow> w\<lparr>scroll := pos\<rparr>
         | None \<Rightarrow> w)
      else w\<lparr>scroll := (0, 0)\<rparr>)"

text \<open>
  \<open>navigate\<close> from the history entry on: the attributes of the document element,
  the nav links (an href that does not parse ends the call with its exception), the
  focus, the scroll offset, the debug line.
\<close>

definition finish_navigation ::
  "router_env \<Rightarrow> host_api \<Rightarrow> faults \<Rightarrow> frame \<Rightarrow> jsobj \<Rightarrow> world \<Rightarrow> outcome \<times> world" where
  "finish_navigation env host flt fr query w =
     (let w4 = set_view_attrs fr w
      in case setActiveNav_error env host (fr_appPath fr) w4 of
           Some e \<Rightarrow> (Threw e, setActiveNav env host (fr_appPath fr) w4)
         | None \<Rightarrow>
             (Returned,
              log env
                (LogRouted (view (fr_resolved fr)) (fr_appPath fr) (params (fr_resolved fr)) query)
                (apply_scroll fr (focus_root flt (setActiveNav env host (fr_appPath fr) w4)))))"

text \<open>
  \<open>navigate\<close> from the end of \<open>await component.boot(...)\<close>: the guard
  \<open>if (signal.aborted) return\<close>, then the steps above. \<open>current\<close> is replaced
  first; an exception of \<open>new URL\<close> or of the history call leaves \<open>navigate\<close>
  with what was written before it.
\<close>

definition after_boot ::
  "router_env \<Rightarrow> host_api \<Rightarrow> faults \<Rightarrow> frame \<Rightarrow> unboot_val \<Rightarrow> world \<Rightarrow> outcome \<times> world" where
  "after_boot env host flt fr unboot_v w =
     (if fr_signal fr \<in> set (aborted w) then (Returned, w)
      else
        let w1 = commit_current fr unboot_v w
        in case route_query env host fr of
             None \<Rightarrow> (Threw TypeError, w1)
           | Some query \<Rightarrow>
               let w2 = publish_route env flt fr query w1
               in case history_location host (history_url env fr) of
                    None \<Rightarrow> (Threw SecurityError, w2)
                  | Some loc \<Rightarrow>
                      finish_navigation env host flt fr query (update_history env fr loc w2))"

text \<open>
  \<open>navigate\<close> from the end of \<open>await current.unboot()\<close>: clear the mount point and
  call \<open>boot\<close> if the component has one. The call to \<open>boot\<close> is not inside a
  \<open>try\<close>: if it throws, \<open>navigate\<close> throws.
\<close>

definition clear_root :: "world \<Rightarrow> world" where
  "clear_root w = w\<lparr>root_children := []\<rparr>"

definition record_call :: "call \<Rightarrow> world \<Rightarrow> world" where
  "record_call c w = w\<lparr>calls := calls w @ [c]\<rparr>"

definition after_unboot ::
  "router_env \<Rightarrow> host_api \<Rightarrow> faults \<Rightarrow> frame \<Rightarrow> world \<Rightarrow> outcome \<times> world" where
  "after_unboot env host flt fr w =
     (case component (fr_resolved fr) of
        None \<Rightarrow> after_boot env host flt fr NotFunction (clear_root w)
      | Some c \<Rightarrow>
          if has_boot c then
            if boot_throws flt
            then (Threw CollaboratorError,
                  record_call (CallBoot (comp_id c) (fr_signal fr) (params (fr_resolved fr)))
                    (clear_root w))
            else suspend AwaitBoot fr
                   (record_call (CallBoot (comp_id c) (fr_signal fr) (params (fr_resolved fr)))
                      (clear_root w))
          else after_boot env host flt fr NotFunction (clear_root w))"

text \<open>
  The start of \<open>navigate\<close>: the mount point must exist; strip the base path and
  normalise; resolve; return on no route; return when path and search are those of
  \<open>current\<close>; abort the controller in flight and create a new one; signal the
  transition; save the scroll offset; call the outgoing \<open>unboot\<close> inside
  \<open>try\<close> (a synchronous exception is caught and the sequence goes on without
  suspending).
\<close>

definition abort_in_flight :: "world \<Rightarrow> world" where
  "abort_in_flight w =
     (let w1 = (case navController w of
                  None \<Rightarrow> w
                | Some ctl \<Rightarrow> w\<lparr>aborted := ctl # aborted w\<rparr>)
      in w1\<lparr>navController := Some (controllers w1), controllers := Suc (controllers w1)\<rparr>)"

definition transition_start :: "router_env \<Rightarrow> faults \<Rightarrow> world \<Rightarrow> world" where
  "transition_start env flt w =
     store_set env (set_throws flt) (str ''ui.route.transitioning'') (SBool True)
       (w\<lparr>html_transitioning := Some (str ''on'')\<rparr>)"

definition begin_navigation ::
  "router_env \<Rightarrow> host_api \<Rightarrow> faults \<Rightarrow> frame \<Rightarrow> world \<Rightarrow> outcome \<times> world" where
  "begin_navigation env host flt fr w =
     (case unboot (current w) of
        NotFunction \<Rightarrow> after_unboot env host flt fr w
      | UnbootFn h \<Rightarrow>
          if unboot_throws flt then after_unboot env host flt fr (record_call (CallUnboot h) w)
          else suspend AwaitUnboot fr (record_call (CallUnboot h) w))"

definition navigate ::
  "router_env \<Rightarrow> host_api \<Rightarrow> faults \<Rightarrow> jsstring \<Rightarrow> nav_opts \<Rightarrow> world \<Rightarrow> outcome \<times> world" where
  "navigate env host flt pathname opts w =
     (if \<not> root_attached w then (Threw RootNotFound, w)
      else
        let appPath = normalizePath (stripBase env pathname)
        in case resolve env appPath of
             Inl e \<Rightarrow> (Threw e, w)
           | Inr None \<Rightarrow> (Returned, log env (LogNoRoute appPath) w)
           | Inr (Some resolved_v) \<Rightarrow>
               let searchStr = norm_search (search opts);
                   w1 = log env (LogNavigate (cur_path (current w)) appPath (view resolved_v)
                                   (params resolved_v)) w
               in if cur_path (current w1) = Some appPath \<and> cur_search (current w1) = searchStr
                  then (Returned, w1)
                  else
                    let w2 = abort_in_flight w1
                    in begin_navigation env host flt
                         \<lparr>fr_appPath = appPath, fr_resolved = resolved_v,
                          fr_searchStr = searchStr, fr_signal = controllers w1,
                          fr_replace = replace opts, fr_restoreScroll = restoreScroll opts\<rparr>
                         (save_scroll (transition_start env flt w2)))"

text \<open>
  \<open>navigateQuery\<close>: the entries of the patch in order, \<open>delete\<close> for null,
  undefined and the empty string, \<open>set\<close> with \<open>String(v)\<close> otherwise; then
  \<open>navigate(path, { search, replace })\<close> with \<open>current.path\<close>, or the location's
  path when there is none.
\<close>

datatype jsval = JNull | JUndefined | JStr jsstring | JBool bool

fun to_String :: "jsval \<Rightarrow> jsstring" where
  "to_String JNull = str ''null''"
| "to_String JUndefined = str ''undefined''"
| "to_String (JStr s) = s"
| "to_String (JBool b) = (if b then str ''true'' else str ''false'')"

definition usp_delete :: "(jsstring \<times> jsstring) list \<Rightarrow> jsstring \<Rightarrow> (jsstring \<times> jsstring) list" where
  "usp_delete ps k = filter (\<lambda>(n, v). n \<noteq> k) ps"

fun usp_set :: "(jsstring \<times> jsstring) list \<Rightarrow> jsstring \<Rightarrow> jsstring \<Rightarrow> (jsstring \<times> jsstring) list" where
  "usp_set [] k v = [(k, v)]"
| "usp_set ((n, x) # ps) k v =
     (if n = k then (k, v) # usp_delete ps k else (n, x) # usp_set ps k v)"

definition patch_query ::
  "(jsstring \<times> jsval) list \<Rightarrow> (jsstring \<times> jsstring) list \<Rightarrow> (jsstring \<times> jsstring) list" where
  "patch_query patch ps0 =
     fold (\<lambda>(k, v) ps.
             if v = JNull \<or> v = JUndefined \<or> v = JStr [] then usp_delete ps k
             else usp_set ps k (to_String v))
          patch ps0"

definition navigateQuery ::
  "router_env \<Rightarrow> host_api \<Rightarrow> faults \<Rightarrow> (jsstring \<times> jsval) list \<Rightarrow> bool \<Rightarrow> world \<Rightarrow> outcome \<times> world" where
  "navigateQuery env host flt patch replace_v w =
     (let cur = cur_search (current w);
          ps = patch_query patch
                 (usp_parse host (if startsWith cur (str ''?'') \<and> cur \<noteq> [] then tl cur else cur));
          searchStr = usp_toString host ps;
          prefixed = (if searchStr \<noteq> [] then str ''?'' @ searchStr else []);
          path_v = (case cur_path (current w) of
                      None \<Rightarrow> normalizePath (stripBase env (location_pathname w))
                    | Some p \<Rightarrow>
                        if p \<noteq> [] then p else normalizePath (stripBase env (location_pathname w)))
      in navigate env host flt path_v
           \<lparr>replace = replace_v, search = prefixed, restoreScroll = False\<rparr> w)"

definition navigatePath ::
  "router_env \<Rightarrow> host_api \<Rightarrow> faults \<Rightarrow> jsstring \<Rightarrow> bool \<Rightarrow> world \<Rightarrow> outcome \<times> world" where
  "navigatePath env host flt path_v replace_v w =
     (let appPath = normalizePath (stripBase env path_v);
          searchStr = cur_search (current w)
      in navigate env host flt appPath
           \<lparr>replace = replace_v, search = searchStr, restoreScroll = False\<rparr> w)"

definition onPop :: "router_env \<Rightarrow> host_api \<Rightarrow> faults \<Rightarrow> world \<Rightarrow> outcome \<times> world" where
  "onPop env host flt w =
     navigate env host flt (location_pathname w)
       \<lparr>replace = True, search = location_search w, restoreScroll = True\<rparr> w"

definition start :: "router_env \<Rightarrow> host_api \<Rightarrow> faults \<Rightarrow> world \<Rightarrow> outcome \<times> world" where
  "start env host flt w =
     (let w1 = w\<lparr>click_listener := True, popstate_listener := True\<rparr>
      in navigate env host flt (location_pathname w1)
           \<lparr>replace = True, search = location_search w1, restoreScroll = True\<rparr> w1)"

definition stop :: "world \<Rightarrow> world" where
  "stop w =
     (let w1 = w\<lparr>click_listener := False, popstate_listener := False, unsubGo := False\<rparr>
      in case unboot (current w1) of
           NotFunction \<Rightarrow> w1
         | UnbootFn h \<Rightarrow> w1\<lparr>calls := calls w1 @ [CallUnboot h]\<rparr>)"

definition getCurrent :: "world \<Rightarrow> jsstring option \<times> jsstring option \<times> jsstring" where
  "getCurrent w = (viewKey (current w), cur_path (current w), cur_search (current w))"

section \<open>Events and reachable states\<close>

text \<open>
  The router runs on one thread: between two \<open>await\<close> points a call of
  \<open>navigate\<close> is one step. An event is a call into the router (a link click and a
  write to \<open>ui.route.go\<close> end in such a call), the settling of an awaited promise, or
  a change made by the browser or by a collaborator. Collaborators are taken not to call
  back into the router from inside a store write or a focus call. A rejected
  \<open>unboot\<close> promise is caught, so its event carries the flag without using it.
\<close>

datatype event =
    Navigate jsstring nav_opts faults
  | NavigateQuery "(jsstring \<times> jsval) list" bool faults
  | NavigatePath jsstring bool faults
  | Start faults
  | Stop
  | PopState jsstring jsstring faults
  | UnbootSettled nat bool faults
  | BootResolved nat unboot_val "nat list" faults
  | BootRejected nat
  | UserScroll int int
  | RootAttached bool
  | StoreWrite jsstring sval
  | SetNavLinks "nav_link list"

definition resume :: "nat \<Rightarrow> world \<Rightarrow> world" where
  "resume tid w = w\<lparr>tasks := (tasks w)(tid := None)\<rparr>"

fun step :: "router_env \<Rightarrow> host_api \<Rightarrow> event \<Rightarrow> world \<Rightarrow> world" where
  "step env host (Navigate pathname opts flt) w = snd (navigate env host flt pathname opts w)"
| "step env host (NavigateQuery patch replace_v flt) w =
     snd (navigateQuery env host flt patch replace_v w)"
| "step env host (NavigatePath path_v replace_v flt) w =
     snd (navigatePath env host flt path_v replace_v w)"
| "step env host (Start flt) w = snd (start env host flt w)"
| "step env host Stop w = stop w"
| "step env host (PopState pathname search_v flt) w =
     (let w1 = w\<lparr>location_pathname := pathname, location_search := search_v\<rparr>
      in if popstate_listener w1 then snd (onPop env host flt w1) else w1)"
| "step env host (UnbootSettled tid rejected flt) w =
     (case tasks w tid of
        Some (AwaitUnboot, fr) \<Rightarrow> snd (after_unboot env host flt fr (resume tid w))
      | _ \<Rightarrow> w)"
| "step env host (BootResolved tid unboot_v rendered flt) w =
     (case tasks w tid of
        Some (AwaitBoot, fr) \<Rightarrow>
          snd (after_boot env host flt fr unboot_v
                 ((resume tid w)\<lparr>root_children := root_children w @ rendered\<rparr>))
      | _ \<Rightarrow> w)"
| "step env host (BootRejected tid) w =
     (case tasks w tid of
        Some (AwaitBoot, fr) \<Rightarrow> resume tid w
      | _ \<Rightarrow> w)"
| "step env host (UserScroll x y) w = w\<lparr>scroll := (x, y)\<rparr>"
| "step env host (RootAttached b) w = w\<lparr>root_attached := b\<rparr>"
| "step env host (StoreWrite k v) w = w\<lparr>store_state := (store_state w)(k \<mapsto> v)\<rparr>"
| "step env host (SetNavLinks links) w = w\<lparr>nav_links := links\<rparr>"

definition run :: "router_env \<Rightarrow> host_api \<Rightarrow> event list \<Rightarrow> world \<Rightarrow> world" where
  "run env host evs w = fold (step env host) evs w"

definition initial :: "router_env \<Rightarrow> world \<Rightarrow> bool" where
  "initial env w \<longleftrightarrow>
     current w = \<lparr>viewKey = None, unboot = NotFunction, cur_path = None, cur_search = []\<rparr>
     \<and> navController w = None \<and> scrollPositions w = [] \<and> unsubGo w = has_store env
     \<and> controllers w = 0 \<and> aborted w = [] \<and> tasks w = Map.empty"

inductive reachable :: "router_env \<Rightarrow> host_api \<Rightarrow> world \<Rightarrow> bool" for env host where
  reachable_initial: "initial env w \<Longrightarrow> reachable env host w"
| reachable_step: "reachable env host w \<Longrightarrow> reachable env host (step env host ev w)"

section \<open>Notions of the specification\<close>

text \<open>
  The path after the leading slash has been prefixed.
\<close>

definition with_leading_slash :: "jsstring \<Rightarrow> jsstring" where
  "with_leading_slash p = (if p = [] \<or> hd p \<noteq> slash then str ''/'' @ p else p)"

text \<open>
  The parameter tokens of a template, read from left to right, and the matcher the
  specification describes: each token is a group, every other character stands for
  itself. \<open>fill\<close> puts segments in the places of the groups; a segment is one or more
  non-slash characters.
\<close>

lemma dropWhile_shorter: "length (dropWhile P s) < Suc (Suc (length s))"
  by (rule le_less_trans [OF length_dropWhile_le]) simp

function param_tokens :: "jsstring \<Rightarrow> jsstring list" where
  "param_tokens (c # d # s) =
     (if c = cu CHR '':'' \<and> is_ident_start d
      then (d # takeWhile is_ident_char s) # param_tokens (dropWhile is_ident_char s)
      else param_tokens (d # s))"
| "param_tokens [c] = []"
| "param_tokens [] = []"
  by pat_completeness auto
termination
  by (relation "measure length") (auto simp: dropWhile_shorter)

function template_items :: "jsstring \<Rightarrow> re_item list" where
  "template_items (c # d # s) =
     (if c = cu CHR '':'' \<and> is_ident_start d
      then Grp # template_items (dropWhile is_ident_char s)
      else Lit c # template_items (d # s))"
| "template_items [c] = [Lit c]"
| "template_items [] = []"
  by pat_completeness auto
termination
  by (relation "measure length") (auto simp: dropWhile_shorter)

fun fill :: "re_item list \<Rightarrow> jsstring list \<Rightarrow> jsstring option" where
  "fill [] segs = (if segs = [] then Some [] else None)"
| "fill (Lit c # r) segs = map_option ((#) c) (fill r segs)"
| "fill (Grp # r) segs =
     (case segs of [] \<Rightarrow> None | g # gs \<Rightarrow> map_option ((@) g) (fill r gs))"
| "fill (Bol # r) segs = fill r segs"
| "fill (Eol # r) segs = fill r segs"

definition segment :: "jsstring \<Rightarrow> bool" where
  "segment g \<longleftrightarrow> g \<noteq> [] \<and> slash \<notin> set g"

definition count_groups :: "re_item list \<Rightarrow> nat" where
  "count_groups r = length (filter (\<lambda>x. x = Grp) r)"

fun part_items :: "nat \<Rightarrow> jsstring list \<Rightarrow> re_item list" where
  "part_items i [] = []"
| "part_items i (part # parts) =
     (if i mod 2 = 1 then [Grp] else map Lit part) @ part_items (i + 1) parts"

definition plain :: "re_item list \<Rightarrow> bool" where
  "plain r \<longleftrightarrow> (\<forall>x \<in> set r. x \<noteq> Bol \<and> x \<noteq> Eol)"

definition compiled_of :: "route \<Rightarrow> jsstring \<Rightarrow> compiled_route" where
  "compiled_of r t =
     \<lparr>path = path r, view = view r, component = component r,
      regex = Bol # template_items t @ [Eol], paramNames = param_tokens t\<rparr>"

text \<open>
  The params of a match: each parameter name with its decoded segment, a later occurrence
  of a name overriding an earlier one.
\<close>

definition decoded :: "jsstring \<Rightarrow> jsstring" where
  "decoded s = (case decodeURIComponent s of Inr v \<Rightarrow> v | Inl e \<Rightarrow> [])"

definition decodable :: "jsstring \<Rightarrow> bool" where
  "decodable s \<longleftrightarrow> \<not> isl (decodeURIComponent s)"

definition params_of :: "jsstring list \<Rightarrow> jsstring list \<Rightarrow> jsobj" where
  "params_of names segs =
     map_of (rev (filter (\<lambda>(n, v). n \<noteq> str ''__proto__'') (zip names (map decoded segs))))"

text \<open>
  What a navigation commits, and the invariants of the reachable states: the controller
  in flight is the one created last and every other one is aborted; a suspended call
  holds a controller that exists and the route its path resolves to; the scroll ledger
  has at most 50 entries under distinct keys; the current path resolves.
\<close>

definition committed :: "world \<Rightarrow> nav_state \<times> hist_op list \<times> (jsstring \<rightharpoonup> sval)" where
  "committed w = (current w, history_ops w, store_state w)"

text \<open>
  A call of \<open>navigate\<close> gets past its three early exits when the mount point exists,
  the path resolves to a route, and the path or the search differs from those of
  NavigationState. Only then does it abort the controller in flight and create its own.
\<close>

definition passes_guards :: "router_env \<Rightarrow> jsstring \<Rightarrow> nav_opts \<Rightarrow> world \<Rightarrow> bool" where
  "passes_guards env pathname opts w \<longleftrightarrow>
     root_attached w
     \<and> (case resolve env (normalizePath (stripBase env pathname)) of
          Inr (Some r) \<Rightarrow>
            \<not> (cur_path (current w) = Some (normalizePath (stripBase env pathname))
               \<and> cur_search (current w) = norm_search (search opts))
        | _ \<Rightarrow> False)"

definition tokens_ok :: "world \<Rightarrow> bool" where
  "tokens_ok w \<longleftrightarrow>
     navController w = (if controllers w = 0 then None else Some (controllers w - 1))
     \<and> set (aborted w) = {c. Suc c < controllers w}"

definition frame_ok :: "router_env \<Rightarrow> world \<Rightarrow> frame \<Rightarrow> bool" where
  "frame_ok env w fr \<longleftrightarrow>
     fr_signal fr < controllers w
     \<and> resolve env (fr_appPath fr) = Inr (Some (fr_resolved fr))"

definition tasks_ok :: "router_env \<Rightarrow> world \<Rightarrow> bool" where
  "tasks_ok env w \<longleftrightarrow> (\<forall>tid st fr. tasks w tid = Some (st, fr) \<longrightarrow> frame_ok env w fr)"

definition ledger_ok :: "world \<Rightarrow> bool" where
  "ledger_ok w \<longleftrightarrow> length (scrollPositions w) \<le> 50 \<and> distinct (map fst (scrollPositions w))"

definition current_ok :: "router_env \<Rightarrow> world \<Rightarrow> bool" where
  "current_ok env w \<longleftrightarrow>
     (\<forall>p. cur_path (current w) = Some p \<longrightarrow> (\<exists>r. resolve env p = Inr (Some r)))"

definition inv :: "router_env \<Rightarrow> world \<Rightarrow> bool" where
  "inv env w \<longleftrightarrow> tokens_ok w \<and> tasks_ok env w \<and> ledger_ok w \<and> current_ok env w"

section \<open>Example configurations\<close>

text \<open>
  The routes of the repository's self-test; a router with two views that have a
  \<open>boot\<close> function, and the runs used below: one navigation suspended at its mount,
  a second one started meanwhile, a mount that resolved, a mount that failed, a mount
  point that left the document, calls of \<open>navigate\<close> that end at an early exit while a
  mount is pending; a router under the base path \<open>/app\<close> and one under the base path
  \<open>/\<close>. The example host knows no query strings, resolves an href to itself and
  refuses a history URL that starts with two slashes.
\<close>

definition test_routes :: "route list" where
  "test_routes =
     [\<lparr>path = str ''/'', view = str ''home'', component = None\<rparr>,
      \<lparr>path = str ''/users'', view = str ''users'', component = None\<rparr>,
      \<lparr>path = str ''/users/:id'', view = str ''user'', component = None\<rparr>,
      \<lparr>path = str ''/users/:id/posts/:postId'', view = str ''post'', component = None\<rparr>]"

definition test_config :: config where
  "test_config = \<lparr>routes = test_routes, store = False, fallback = None, debug = False\<rparr>"

definition test_env :: router_env where
  "test_env = projr (createRouter test_config None)"

definition fresh_world :: world where
  "fresh_world =
     \<lparr>current = \<lparr>viewKey = None, unboot = NotFunction, cur_path = None, cur_search = []\<rparr>,
      navController = None, scrollPositions = [], unsubGo = False, controllers = 0,
      aborted = [], tasks = Map.empty, next_task = 0, root_attached = True,
      root_children = [], root_tabindex = None, root_focused = False,
      html_transitioning = None, html_view = None, nav_links = [], history_ops = [],
      scroll = (0, 0), location_pathname = str ''/'', location_search = [],
      click_listener = False, popstate_listener = False, store_state = Map.empty,
      calls = [], console = []\<rparr>"

definition demo_config :: config where
  "demo_config =
     \<lparr>routes =
        [\<lparr>path = str ''/'', view = str ''home'',
          component = Some \<lparr>comp_id = 1, has_boot = True\<rparr>\<rparr>,
         \<lparr>path = str ''/about'', view = str ''about'',
          component = Some \<lparr>comp_id = 2, has_boot = True\<rparr>\<rparr>],
      store = True, fallback = None, debug = False\<rparr>"

definition demo_env :: router_env where
  "demo_env = projr (createRouter demo_config None)"

definition demo_world :: world where
  "demo_world = fresh_world\<lparr>unsubGo := True\<rparr>"

definition bare_host :: host_api where
  "bare_host =
     \<lparr>usp_parse = (\<lambda>s. []), usp_toString = (\<lambda>ps. []), url_searchParams = (\<lambda>u. Some []),
      url_pathname = (\<lambda>h p s. Some h),
      history_location = (\<lambda>u. if startsWith u (str ''//'') then None else Some (u, []))\<rparr>"

definition no_faults :: faults where
  "no_faults = \<lparr>set_throws = False, setMany_throws = False, focus_throws = False,
                unboot_throws = False, boot_throws = False\<rparr>"


definition push_opts :: nav_opts where
  "push_opts = \<lparr>replace = False, search = [], restoreScroll = False\<rparr>"

definition frame_home :: frame where
  "frame_home =
     \<lparr>fr_appPath = str ''/'',
      fr_resolved = \<lparr>path = str ''/'', view = str ''home'',
                     component = Some \<lparr>comp_id = 1, has_boot = True\<rparr>, params = Map.empty\<rparr>,
      fr_searchStr = [], fr_signal = 0, fr_replace = False, fr_restoreScroll = False\<rparr>"

definition frame_about :: frame where
  "frame_about =
     \<lparr>fr_appPath = str ''/about'',
      fr_resolved = \<lparr>path = str ''/about'', view = str ''about'',
                     component = Some \<lparr>comp_id = 2, has_boot = True\<rparr>, params = Map.empty\<rparr>,
      fr_searchStr = [], fr_signal = 1, fr_replace = False, fr_restoreScroll = False\<rparr>"

definition about_first :: frame where
  "about_first = frame_about\<lparr>fr_signal := 0\<rparr>"

definition home_second :: frame where
  "home_second = frame_home\<lparr>fr_signal := 1\<rparr>"

definition mounting_home :: world where
  "mounting_home = run demo_env bare_host [Navigate (str ''/'') push_opts no_faults] demo_world"

definition racing :: world where
  "racing = run demo_env bare_host
     [Navigate (str ''/'') push_opts no_faults, Navigate (str ''/about'') push_opts no_faults]
     demo_world"

definition at_home :: world where
  "at_home = run demo_env bare_host
     [Navigate (str ''/'') push_opts no_faults, BootResolved 0 (UnbootFn 7) [] no_faults]
     demo_world"


definition detached_home :: world where
  "detached_home = run demo_env bare_host
     [Navigate (str ''/'') push_opts no_faults, BootResolved 0 (UnbootFn 7) [] no_faults,
      RootAttached False]
     demo_world"

definition at_about :: world where
  "at_about = run demo_env bare_host
     [Navigate (str ''/about'') push_opts no_faults, BootResolved 0 NotFunction [] no_faults]
     demo_world"

definition home_pending :: world where
  "home_pending = run demo_env bare_host
     [Navigate (str ''/about'') push_opts no_faults, BootResolved 0 NotFunction [] no_faults,
      Navigate (str ''/'') push_opts no_faults]
     demo_world"

definition late_commit :: world where
  "late_commit = run demo_env bare_host
     [Navigate (str ''/about'') push_opts no_faults, BootResolved 0 NotFunction [] no_faults,
      Navigate (str ''/'') push_opts no_faults,
      Navigate (str ''/nowhere'') push_opts no_faults,
      Navigate (str ''/about'') push_opts no_faults,
      BootResolved 1 NotFunction [] no_faults]
     demo_world"

definition rooted_env :: router_env where
  "rooted_env = projr (createRouter test_config (Some (str ''/'')))"


definition based_config :: config where
  "based_config =
     \<lparr>routes =
        [\<lparr>path = str ''/app/x'', view = str ''inner'', component = None\<rparr>,
         \<lparr>path = str ''/x'', view = str ''outer'', component = None\<rparr>],
      store = False, fallback = None, debug = False\<rparr>"

definition based_env :: router_env where
  "based_env = projr (createRouter based_config (Some (str ''/app/'')))"

definition inner_view :: "host_api \<Rightarrow> faults \<Rightarrow> world" where
  "inner_view host flt = step based_env host (Navigate (str ''/app/app/x'') push_opts flt) fresh_world"

section \<open>Facts about strings and normalizePath\<close>

lemma str_slash: "str ''/'' = [slash]"
  by (simp add: str_def slash_def)

lemma endsWith_slash: "endsWith p (str ''/'') \<longleftrightarrow> p \<noteq> [] \<and> last p = slash"
proof (cases p rule: rev_cases)
  case Nil
  then show ?thesis by (simp add: endsWith_def str_slash)
next
  case (snoc ys y)
  then show ?thesis by (auto simp: endsWith_def str_slash)
qed

lemma endsWith_two_slashes:
  "endsWith q (str ''//'') \<longleftrightarrow>
    length q \<ge> 2 \<and> last q = slash \<and> last (butlast q) = slash"
proof (cases q rule: rev_cases)
  case Nil
  then show ?thesis by (simp add: endsWith_def str_def)
next
  case (snoc ys y)
  show ?thesis
  proof (cases ys rule: rev_cases)
    case Nil
    then show ?thesis using snoc by (simp add: endsWith_def str_def)
  next
    case (snoc zs z)
    then have "q = zs @ [z, y]" using \<open>q = ys @ [y]\<close> by simp
    moreover have "butlast (zs @ [z, y]) = zs @ [z]"
      by (simp add: butlast_append)
    ultimately show ?thesis
      by (auto simp: endsWith_def str_def slash_def)
  qed
qed

lemma index_html_last: "last (str ''/index.html'') \<noteq> slash"
  by (simp add: str_def slash_def)

lemma index_html_hd: "hd (str ''/index.html'') = slash"
  by (simp add: str_def slash_def)

lemma index_html_length: "length (str ''/index.html'') = 11"
  by (simp add: str_def)

lemma normalizePath_alt:
  "normalizePath p =
    (if with_leading_slash p = str ''/index.html'' then str ''/''
     else if length (with_leading_slash p) > 1 \<and> last (with_leading_slash p) = slash
       then butlast (with_leading_slash p)
       else with_leading_slash p)"
proof (cases "p = []")
  case True
  then show ?thesis
    by (simp add: normalizePath_def with_leading_slash_def str_def slash_def)
next
  case False
  then show ?thesis
    by (simp add: normalizePath_def with_leading_slash_def Let_def endsWith_slash)
qed

lemma with_leading_slash_hd: "hd (with_leading_slash p) = slash"
  by (simp add: with_leading_slash_def str_slash)

lemma with_leading_slash_nonempty: "with_leading_slash p \<noteq> []"
  by (simp add: with_leading_slash_def str_slash)

lemma with_leading_slash_id: "q \<noteq> [] \<Longrightarrow> hd q = slash \<Longrightarrow> with_leading_slash q = q"
  by (simp add: with_leading_slash_def)

lemma normalizePath_hd: "hd (normalizePath p) = slash"
proof -
  let ?q = "with_leading_slash p"
  have q: "?q \<noteq> []" "hd ?q = slash"
    by (simp_all add: with_leading_slash_nonempty with_leading_slash_hd)
  have "length ?q > 1 \<Longrightarrow> hd (butlast ?q) = slash"
    using q by (cases ?q) (auto split: if_splits)
  then show ?thesis
    using q by (auto simp: normalizePath_alt Let_def str_slash)
qed

lemma normalizePath_nonempty: "normalizePath p \<noteq> []"
proof -
  let ?q = "with_leading_slash p"
  have "length ?q > 1 \<Longrightarrow> butlast ?q \<noteq> []"
    by (cases ?q rule: rev_cases) auto
  then show ?thesis
    by (auto simp: normalizePath_alt Let_def str_slash with_leading_slash_nonempty)
qed

lemma normalizePath_fixed:
  assumes "q \<noteq> []" "hd q = slash"
  shows "normalizePath q = q \<longleftrightarrow>
    q = str ''/'' \<or> (last q \<noteq> slash \<and> q \<noteq> str ''/index.html'')"
proof -
  have w: "with_leading_slash q = q"
    using assms by (rule with_leading_slash_id)
  have ne: "str ''/index.html'' \<noteq> str ''/''"
    by (simp add: str_def)
  have bl: "butlast q \<noteq> q"
    using assms(1) by (metis length_butlast diff_less length_greater_0_conv less_numeral_extra(1) nat_neq_iff)
  have one: "\<not> length q > 1 \<Longrightarrow> q = str ''/''"
    using assms by (cases q) (auto simp: str_slash)
  show ?thesis
    unfolding normalizePath_alt w
    using ne bl one by (auto simp: str_slash)
qed

section \<open>Facts about the pattern compiler\<close>

lemma syntax_chars_mem:
  "backslash \<in> set syntax_chars" "cu CHR ''^'' \<in> set syntax_chars"
  "cu CHR ''$'' \<in> set syntax_chars" "cu CHR ''('' \<in> set syntax_chars"
  by (simp_all add: syntax_chars_def str_def cu_def backslash_def)

lemma RegExp_parse_escape:
  "RegExp_parse (escape_re lit @ rest) = map_option ((@) (map Lit lit)) (RegExp_parse rest)"
proof (induction lit)
  case Nil
  then show ?case by (simp add: escape_re_def option.map_ident)
next
  case (Cons c lit)
  have step: "RegExp_parse ((if c \<in> set syntax_chars then [backslash, c] else [c]) @ s) =
      map_option ((#) (Lit c)) (RegExp_parse s)" for s
    using syntax_chars_mem by auto
  have "escape_re (c # lit) @ rest =
      (if c \<in> set syntax_chars then [backslash, c] else [c]) @ (escape_re lit @ rest)"
    by (simp add: escape_re_def)
  then show ?case
    using Cons.IH by (simp only: step) (simp add: option.map_comp comp_def)
qed

lemma RegExp_parse_group:
  "RegExp_parse (str ''([^/]+)'' @ rest) = map_option ((#) Grp) (RegExp_parse rest)"
proof -
  have "str ''([^/]+)'' @ rest = cu CHR ''('' # (str ''[^/]+)'' @ rest)"
    by (simp add: str_def cu_def)
  moreover have "take 6 (str ''[^/]+)'' @ rest) = str ''[^/]+)''"
    "drop 6 (str ''[^/]+)'' @ rest) = rest"
    by (simp_all add: str_def)
  moreover have "cu CHR ''('' \<noteq> backslash" "cu CHR ''('' \<noteq> cu CHR ''^''" "cu CHR ''('' \<noteq> cu CHR ''$''"
    by (simp_all add: cu_def backslash_def)
  ultimately show ?thesis by simp
qed

lemma RegExp_parse_pieces:
  "RegExp_parse (concat (regex_pieces i parts) @ rest) =
     map_option ((@) (part_items i parts)) (RegExp_parse rest)"
proof (induction parts arbitrary: i)
  case Nil
  then show ?case by (simp add: option.map_ident)
next
  case (Cons part parts)
  show ?case
    by (simp add: RegExp_parse_group RegExp_parse_escape Cons.IH option.map_comp comp_def)
qed

lemma RegExp_parse_anchored:
  "RegExp_parse (str ''^'' @ concat (regex_pieces 0 parts) @ str ''$'') =
     Some (Bol # part_items 0 parts @ [Eol])"
proof -
  have a: "str ''^'' @ x = cu CHR ''^'' # x" for x
    by (simp add: str_def cu_def)
  have b: "RegExp_parse (str ''$'') = Some [Eol]"
    by (simp add: str_def cu_def backslash_def)
  have c: "cu CHR ''^'' \<noteq> backslash"
    by (simp add: cu_def backslash_def)
  show ?thesis
    unfolding a using c by (simp add: RegExp_parse_pieces b)
qed

lemma compilePattern_parts:
  "compilePattern t =
     Inr (Bol # part_items 0 (split_params t) @ [Eol], pushed_names 0 (split_params t))"
  by (simp add: compilePattern_def Let_def RegExp_parse_anchored)

lemma match_param_Some_iff:
  "match_param (c # s) = Some (name, rest) \<longleftrightarrow>
     (\<exists>d s'. s = d # s' \<and> c = cu CHR '':'' \<and> is_ident_start d
        \<and> name = d # takeWhile is_ident_char s' \<and> rest = dropWhile is_ident_char s')"
  by (cases s) auto

lemma match_param_None_iff:
  "match_param (c # s) = None \<longleftrightarrow>
     (case s of [] \<Rightarrow> True | d # s' \<Rightarrow> \<not> (c = cu CHR '':'' \<and> is_ident_start d))"
  by (cases s) auto

lemma part_items_parity: "part_items (Suc (Suc i)) xs = part_items i xs"
  by (induction xs arbitrary: i) simp_all

lemma pushed_names_parity: "pushed_names (Suc (Suc i)) xs = pushed_names i xs"
  by (induction xs arbitrary: i) simp_all

lemma part_items_split_from:
  "part_items 0 (split_from lit t) = map Lit lit @ template_items t"
proof (induction lit t rule: split_from.induct)
  case (1 lit)
  then show ?case by simp
next
  case (2 lit c s)
  show ?case
  proof (cases "match_param (c # s)")
    case None
    then have "template_items (c # s) = Lit c # template_items s"
      by (cases s) (auto split: if_splits)
    then show ?thesis using None 2(1) by simp
  next
    case (Some a)
    obtain name rest where a: "a = (name, rest)" by (cases a)
    from Some a obtain d s' where s: "s = d # s'" "c = cu CHR '':''" "is_ident_start d"
      "rest = dropWhile is_ident_char s'"
      by (auto simp: match_param_Some_iff)
    have "part_items 0 (split_from [] rest) = template_items rest"
      using 2(2) [OF Some a [symmetric]] by simp
    then show ?thesis using Some a s by (simp add: part_items_parity)
  qed
qed

lemma pushed_names_split_from:
  "pushed_names 0 (split_from lit t) = param_tokens t"
proof (induction lit t rule: split_from.induct)
  case (1 lit)
  then show ?case by simp
next
  case (2 lit c s)
  show ?case
  proof (cases "match_param (c # s)")
    case None
    then have "param_tokens (c # s) = param_tokens s"
      by (cases s) (auto split: if_splits)
    then show ?thesis using None 2(1) by simp
  next
    case (Some a)
    obtain name rest where a: "a = (name, rest)" by (cases a)
    from Some a obtain d s' where s: "s = d # s'" "c = cu CHR '':''" "is_ident_start d"
      "name = d # takeWhile is_ident_char s'" "rest = dropWhile is_ident_char s'"
      by (auto simp: match_param_Some_iff)
    have "pushed_names 0 (split_from [] rest) = param_tokens rest"
      using 2(2) [OF Some a [symmetric]] by simp
    then show ?thesis using Some a s by (simp add: pushed_names_parity)
  qed
qed

lemma compilePattern_eq:
  "compilePattern t =
     Inr (Bol # template_items t @ [Eol], param_tokens t)"
  using part_items_split_from [of "[]" t]
  by (simp add: compilePattern_parts split_params_def pushed_names_split_from)

lemma count_groups_template: "count_groups (template_items t) = length (param_tokens t)"
  by (induction t rule: template_items.induct) (simp_all add: count_groups_def)

section \<open>Facts about matching\<close>

lemma greedy_Some: "greedy f n = Some r \<Longrightarrow> \<exists>k. 0 < k \<and> k \<le> n \<and> f k = Some r"
proof (induction n)
  case 0
  then show ?case by simp
next
  case (Suc n)
  then show ?case
    by (cases "f (Suc n)") (auto intro: le_SucI)
qed

lemma greedy_None: "greedy f n = None \<Longrightarrow> 0 < k \<Longrightarrow> k \<le> n \<Longrightarrow> f k = None"
proof (induction n)
  case 0
  then show ?case by simp
next
  case (Suc n)
  then show ?case
    by (cases "f (Suc n)") (auto simp: le_Suc_eq)
qed

lemma greedy_not_None:
  assumes "0 < k" "k \<le> n" "f k \<noteq> None"
  shows "greedy f n \<noteq> None"
proof
  assume "greedy f n = None"
  from greedy_None [OF this assms(1,2)] assms(3) show False by simp
qed

lemma take_run_segment:
  assumes "0 < n" "n \<le> length (takeWhile (\<lambda>c. c \<noteq> slash) s)"
  shows "segment (take n s)"
proof -
  let ?run = "takeWhile (\<lambda>c. c \<noteq> slash) s"
  have "take n s = take n ?run"
    using assms(2) by (metis takeWhile_dropWhile_id take_append diff_is_0_eq take_0 append_Nil2)
  moreover have "slash \<notin> set ?run"
    by (auto dest: set_takeWhileD)
  moreover have "take n ?run \<noteq> []"
    using assms by auto
  ultimately show ?thesis
    unfolding segment_def by (metis in_set_takeD)
qed

lemma rmatch_sound:
  "rmatch r at0 s = Some (w, caps) \<Longrightarrow>
     take (length w) s = w \<and> fill r caps = Some w \<and> list_all segment caps
     \<and> length caps = count_groups r"
proof (induction r at0 s arbitrary: w caps rule: rmatch.induct)
  case (1 at0 s)
  then show ?case by (simp add: count_groups_def)
next
  case (2 r at0 s)
  then show ?case by (simp add: count_groups_def split: if_splits)
next
  case (3 r at0 s)
  then show ?case by (simp add: count_groups_def split: if_splits)
next
  case (4 c r at0 s)
  then show ?case
    by (auto simp: count_groups_def split: list.splits if_splits)
next
  case (5 r at0 s)
  let ?N = "length (takeWhile (\<lambda>c. c \<noteq> slash) s)"
  from 5(2) obtain n where n: "0 < n" "n \<le> ?N"
    "map_option (\<lambda>(w, caps). (take n s @ w, take n s # caps)) (rmatch r False (drop n s)) = Some (w, caps)"
    by (auto dest!: greedy_Some)
  then obtain w' caps' where m: "rmatch r False (drop n s) = Some (w', caps')"
    "w = take n s @ w'" "caps = take n s # caps'"
    by auto
  have ih: "take (length w') (drop n s) = w'" "fill r caps' = Some w'" "list_all segment caps'"
    "length caps' = count_groups r"
    using 5(1) [OF m(1)] by simp_all
  have seg: "segment (take n s)"
    using n(1,2) by (rule take_run_segment)
  have len: "n \<le> length s"
    using n(2) length_takeWhile_le [of "\<lambda>c. c \<noteq> slash" s] by simp
  have "take (length w) s = take n s @ take (length w') (drop n s)"
    using len by (simp add: m(2) take_add min_absorb2)
  then show ?case
    using ih seg by (simp add: m count_groups_def)
qed

lemma rmatch_Eol_whole:
  "rmatch (r @ [Eol]) at0 s = Some (w, caps) \<Longrightarrow> w = s"
proof (induction r arbitrary: at0 s w caps)
  case Nil
  then show ?case by (simp split: if_splits)
next
  case (Cons x r)
  show ?case
  proof (cases x)
    case Bol
    then show ?thesis using Cons by (simp split: if_splits)
  next
    case Eol
    then show ?thesis using Cons by (simp split: if_splits)
  next
    case (Lit c)
    then show ?thesis using Cons by (auto split: list.splits if_splits)
  next
    case Grp
    with Cons.prems obtain n where n: "0 < n" "n \<le> length (takeWhile (\<lambda>c. c \<noteq> slash) s)"
      "map_option (\<lambda>(w, caps). (take n s @ w, take n s # caps)) (rmatch (r @ [Eol]) False (drop n s))
         = Some (w, caps)"
      by (auto dest!: greedy_Some)
    then obtain w' caps' where m: "rmatch (r @ [Eol]) False (drop n s) = Some (w', caps')"
      "w = take n s @ w'"
      by auto
    have "w' = drop n s" using Cons.IH [OF m(1)] .
    then show ?thesis using m(2) by simp
  qed
qed

lemma rmatch_complete:
  "plain r \<Longrightarrow> list_all segment segs \<Longrightarrow> fill r segs = Some s \<Longrightarrow>
     rmatch (r @ [Eol]) at0 s \<noteq> None"
proof (induction r arbitrary: segs s at0)
  case Nil
  then show ?case by (simp split: if_splits)
next
  case (Cons x r)
  have pr: "plain r" using Cons.prems(1) by (simp add: plain_def)
  show ?case
  proof (cases x)
    case Bol
    then show ?thesis using Cons.prems(1) by (simp add: plain_def)
  next
    case Eol
    then show ?thesis using Cons.prems(1) by (simp add: plain_def)
  next
    case (Lit c)
    with Cons.prems(3) obtain s' where s': "s = c # s'" "fill r segs = Some s'"
      by auto
    have "rmatch (r @ [Eol]) False s' \<noteq> None"
      using pr Cons.prems(2) s'(2) by (rule Cons.IH)
    then show ?thesis using Lit s'(1) by auto
  next
    case Grp
    with Cons.prems(3) obtain g gs s' where g: "segs = g # gs" "s = g @ s'" "fill r gs = Some s'"
      by (auto split: list.splits)
    have seg: "segment g" "list_all segment gs"
      using Cons.prems(2) g(1) by simp_all
    have ih: "rmatch (r @ [Eol]) False s' \<noteq> None"
      using pr seg(2) g(3) by (rule Cons.IH)
    let ?f = "\<lambda>n. map_option (\<lambda>(w, caps). (take n s @ w, take n s # caps))
                (rmatch (r @ [Eol]) False (drop n s))"
    have "takeWhile (\<lambda>c. c \<noteq> slash) s = g @ takeWhile (\<lambda>c. c \<noteq> slash) s'"
      using seg(1) unfolding g(2) segment_def by (intro takeWhile_append2) auto
    then have le: "length g \<le> length (takeWhile (\<lambda>c. c \<noteq> slash) s)"
      by simp
    have pos: "0 < length g"
      using seg(1) by (simp add: segment_def)
    have "?f (length g) \<noteq> None"
      using ih g(2) by simp
    with pos le have "greedy ?f (length (takeWhile (\<lambda>c. c \<noteq> slash) s)) \<noteq> None"
      by (rule greedy_not_None)
    then show ?thesis using Grp by simp
  qed
qed

lemma re_exec_Bol_later: "re_exec (Bol # r) False s = None"
  by (induction s) simp_all

lemma re_exec_Bol: "re_exec (Bol # r) True s = rmatch r True s"
  by (cases s) (auto simp: re_exec_Bol_later split: option.splits)

lemma fill_append_Eol: "fill (r @ [Eol]) segs = fill r segs"
  by (induction r segs rule: fill.induct) (simp_all split: list.splits)

lemma plain_template_items: "plain (template_items t)"
  by (induction t rule: template_items.induct) (simp_all add: plain_def)

lemma template_items_no_params:
  "param_tokens t = [] \<Longrightarrow> template_items t = map Lit t"
  by (induction t rule: template_items.induct) (simp_all split: if_splits)

lemma fill_literals: "fill (map Lit t) segs = Some p \<longleftrightarrow> segs = [] \<and> p = t"
  by (induction t arbitrary: p) auto

lemma count_groups_snoc_Eol: "count_groups (r @ [Eol]) = count_groups r"
  by (simp add: count_groups_def)

lemma str_match_template:
  assumes "str_match p (Bol # template_items t @ [Eol]) = Some m"
  shows "\<exists>segs. m = p # segs \<and> length segs = length (param_tokens t)
           \<and> list_all segment segs \<and> fill (template_items t) segs = Some p"
proof -
  from assms obtain w caps where m: "rmatch (template_items t @ [Eol]) True p = Some (w, caps)"
    "m = w # caps"
    by (auto simp: str_match_def re_exec_Bol)
  have "w = p" using m(1) by (rule rmatch_Eol_whole)
  moreover have "fill (template_items t @ [Eol]) caps = Some w" "list_all segment caps"
    "length caps = count_groups (template_items t @ [Eol])"
    using rmatch_sound [OF m(1)] by simp_all
  ultimately show ?thesis
    using m(2) by (simp add: fill_append_Eol count_groups_snoc_Eol count_groups_template)
qed

lemma str_match_template_complete:
  assumes "list_all segment segs" "fill (template_items t) segs = Some p"
  shows "str_match p (Bol # template_items t @ [Eol]) \<noteq> None"
  using rmatch_complete [OF plain_template_items assms, of True]
  by (simp add: str_match_def re_exec_Bol)

lemma str_match_literal:
  assumes "param_tokens t = []"
  shows "str_match p (Bol # template_items t @ [Eol]) \<noteq> None \<longleftrightarrow> p = t"
proof
  assume "str_match p (Bol # template_items t @ [Eol]) \<noteq> None"
  then obtain m where "str_match p (Bol # template_items t @ [Eol]) = Some m" by auto
  from str_match_template [OF this] obtain segs where "fill (template_items t) segs = Some p"
    by auto
  then show "p = t"
    using assms by (simp add: template_items_no_params fill_literals)
next
  assume "p = t"
  then have "fill (template_items t) [] = Some p"
    using assms by (simp add: template_items_no_params fill_literals)
  then show "str_match p (Bol # template_items t @ [Eol]) \<noteq> None"
    by (intro str_match_template_complete [of "[]"]) simp_all
qed

section \<open>Facts about decoding and resolve\<close>

lemma decode_from_error: "decode_from s = Inl e \<Longrightarrow> e = URIError"
proof (induction s arbitrary: e rule: decode_from.induct)
  case 1
  then show ?case by simp
next
  case (2 c s)
  show ?case
  proof (cases "c \<noteq> cu CHR ''%''")
    case True
    then show ?thesis using "2.IH"(1) "2.prems" by (cases "decode_from s") auto
  next
    case False
    then have c: "c = cu CHR ''%''" by simp
    show ?thesis
    proof (cases "percent_octet (c # s)")
      case None
      then show ?thesis using "2.prems" c by simp
    next
      case (Some a)
      obtain b rest where a: "a = (b, rest)" by (cases a)
      show ?thesis
      proof (cases "leading_ones b = 0")
        case True
        then show ?thesis
          using "2.IH"(2) [OF _ Some a [symmetric] True] "2.prems" c Some a
          by (cases "decode_from rest") auto
      next
        case l0: False
        show ?thesis
        proof (cases "leading_ones b = 1 \<or> 4 < leading_ones b")
          case True
          then show ?thesis using "2.prems" c Some a l0 by auto
        next
          case l1: False
          show ?thesis
          proof (cases "percent_octets (leading_ones b - 1) rest")
            case None
            then show ?thesis using "2.prems" c Some a l0 l1 by auto
          next
            case so: (Some a2)
            obtain bs rest' where a2: "a2 = (bs, rest')" by (cases a2)
            show ?thesis
            proof (cases "utf8_code_point (b # bs)")
              case None
              then show ?thesis using "2.prems" c Some a l0 l1 so a2 by auto
            next
              case sc: (Some cp)
              have "decode_from rest' = Inl e' \<Longrightarrow> e' = URIError" for e'
                using "2.IH"(3) [OF _ Some a [symmetric] l0 l1 so a2 [symmetric] sc] c by simp
              then show ?thesis
                using "2.prems" c Some a l0 l1 so a2 sc by (cases "decode_from rest'") auto
            qed
          qed
        qed
      qed
    qed
  qed
qed

lemma decodeURIComponent_cases:
  "decodeURIComponent s = (if decodable s then Inr (decoded s) else Inl URIError)"
  using decode_from_error [of s]
  by (cases "decode_from s") (auto simp: decodable_def decoded_def decodeURIComponent_def)

lemma params_of_Cons:
  "params_of (name # names) (seg # segs) =
     (if name = str ''__proto__'' then Map.empty else [name \<mapsto> decoded seg]) ++ params_of names segs"
  by (simp add: params_of_def)

lemma obj_set_add:
  "obj_set ps name v ++ m = ps ++ ((if name = str ''__proto__'' then Map.empty else [name \<mapsto> v]) ++ m)"
  by (auto simp: obj_set_def map_add_def fun_eq_iff split: option.splits)

lemma assign_params_spec:
  assumes "i + length names < length m"
  shows "assign_params i names m ps =
     (if list_all decodable (take (length names) (drop (Suc i) m))
      then Inr (ps ++ params_of names (take (length names) (drop (Suc i) m)))
      else Inl URIError)"
  using assms
proof (induction names arbitrary: i ps)
  case Nil
  then show ?case by (simp add: params_of_def)
next
  case (Cons name names)
  have lt: "Suc i < length m" using Cons.prems by simp
  have d: "drop (Suc i) m = m ! Suc i # drop (Suc (Suc i)) m"
    using lt by (simp add: Cons_nth_drop_Suc)
  have mi: "match_index m (Suc i) = m ! Suc i"
    using lt by (simp add: match_index_def)
  have ih: "assign_params (Suc i) names m ps' =
     (if list_all decodable (take (length names) (drop (Suc (Suc i)) m))
      then Inr (ps' ++ params_of names (take (length names) (drop (Suc (Suc i)) m)))
      else Inl URIError)" for ps'
    using Cons.prems by (intro Cons.IH) simp
  show ?case
    by (simp add: mi d decodeURIComponent_cases ih params_of_Cons obj_set_add)
qed

lemma compile_route_eq: "compile_route r t = Inr (compiled_of r t)"
  by (simp add: compile_route_def compilePattern_eq compiled_of_def)

lemma compile_routes_eq: "compile_routes rs = Inr (map (\<lambda>r. compiled_of r (path r)) rs)"
  by (induction rs) (simp_all add: compile_route_eq)

lemma createRouter_eq:
  "createRouter cfg base =
     Inr \<lparr>compiled = map (\<lambda>r. compiled_of r (path r)) (routes cfg),
          compiledFallback =
            map_option (\<lambda>f. compiled_of f (if path f = [] then str ''/*'' else path f)) (fallback cfg),
          BASE_PATH = detect_base base, has_store = store cfg, debug_on = debug cfg\<rparr>"
  by (cases "fallback cfg") (simp_all add: createRouter_def compile_routes_eq compile_route_eq)

lemma compiled_of_fields [simp]:
  "regex (compiled_of r t) = Bol # template_items t @ [Eol]"
  "paramNames (compiled_of r t) = param_tokens t"
  "path (compiled_of r t) = path r"
  "view (compiled_of r t) = view r"
  "component (compiled_of r t) = component r"
  by (simp_all add: compiled_of_def)

lemma resolve_loop_skip:
  assumes "\<forall>q \<in> set pre. str_match p (regex q) = None"
  shows "resolve_loop (pre @ rest) fb p = resolve_loop rest fb p"
  using assms by (induction pre) simp_all

lemma resolve_loop_none:
  assumes "\<forall>q \<in> set rs. str_match p (regex q) = None"
  shows "resolve_loop rs fb p = Inr (map_option fallback_result fb)"
  using resolve_loop_skip [OF assms, of "[]" fb] by simp

lemma resolve_loop_hit:
  assumes "str_match p (regex r) = Some m" "length m = Suc (length (paramNames r))"
  shows "resolve_loop (r # post) fb p =
     (if list_all decodable (tl m)
      then Inr (Some \<lparr>path = path r, view = view r, component = component r,
                      params = params_of (paramNames r) (tl m)\<rparr>)
      else Inl URIError)"
proof -
  have "take (length (paramNames r)) (drop (Suc 0) m) = tl m"
    using assms(2) by (cases m) simp_all
  then have "assign_params 0 (paramNames r) m Map.empty =
     (if list_all decodable (tl m) then Inr (params_of (paramNames r) (tl m)) else Inl URIError)"
    using assign_params_spec [of 0 "paramNames r" m Map.empty] assms(2) by simp
  then show ?thesis using assms(1) by simp
qed

section \<open>Frame facts of the navigation steps\<close>

lemma log_fields [simp]:
  "current (log env e w) = current w" "navController (log env e w) = navController w"
  "controllers (log env e w) = controllers w" "aborted (log env e w) = aborted w"
  "tasks (log env e w) = tasks w" "next_task (log env e w) = next_task w"
  "scrollPositions (log env e w) = scrollPositions w"
  "history_ops (log env e w) = history_ops w" "store_state (log env e w) = store_state w"
  "root_attached (log env e w) = root_attached w"
  "root_tabindex (log env e w) = root_tabindex w"
  "root_focused (log env e w) = root_focused w" "scroll (log env e w) = scroll w"
  "nav_links (log env e w) = nav_links w"
  by (simp_all add: log_def)

lemma store_set_fields [simp]:
  "current (store_set env t k v w) = current w"
  "navController (store_set env t k v w) = navController w"
  "controllers (store_set env t k v w) = controllers w"
  "aborted (store_set env t k v w) = aborted w" "tasks (store_set env t k v w) = tasks w"
  "next_task (store_set env t k v w) = next_task w"
  "scrollPositions (store_set env t k v w) = scrollPositions w"
  "history_ops (store_set env t k v w) = history_ops w"
  "root_attached (store_set env t k v w) = root_attached w"
  "root_tabindex (store_set env t k v w) = root_tabindex w"
  "root_focused (store_set env t k v w) = root_focused w"
  "scroll (store_set env t k v w) = scroll w"
  "nav_links (store_set env t k v w) = nav_links w"
  by (simp_all add: store_set_def)

lemma store_setMany_fields [simp]:
  "current (store_setMany env t kvs w) = current w"
  "navController (store_setMany env t kvs w) = navController w"
  "controllers (store_setMany env t kvs w) = controllers w"
  "aborted (store_setMany env t kvs w) = aborted w"
  "tasks (store_setMany env t kvs w) = tasks w"
  "next_task (store_setMany env t kvs w) = next_task w"
  "scrollPositions (store_setMany env t kvs w) = scrollPositions w"
  "history_ops (store_setMany env t kvs w) = history_ops w"
  "root_attached (store_setMany env t kvs w) = root_attached w"
  "root_tabindex (store_setMany env t kvs w) = root_tabindex w"
  "root_focused (store_setMany env t kvs w) = root_focused w"
  "scroll (store_setMany env t kvs w) = scroll w"
  "nav_links (store_setMany env t kvs w) = nav_links w"
  by (simp_all add: store_setMany_def)

lemma commit_current_fields [simp]:
  "navController (commit_current fr u w) = navController w"
  "controllers (commit_current fr u w) = controllers w"
  "aborted (commit_current fr u w) = aborted w" "tasks (commit_current fr u w) = tasks w"
  "next_task (commit_current fr u w) = next_task w"
  "scrollPositions (commit_current fr u w) = scrollPositions w"
  "history_ops (commit_current fr u w) = history_ops w"
  "store_state (commit_current fr u w) = store_state w"
  "root_attached (commit_current fr u w) = root_attached w"
  "root_tabindex (commit_current fr u w) = root_tabindex w"
  "root_focused (commit_current fr u w) = root_focused w"
  "scroll (commit_current fr u w) = scroll w"
  "nav_links (commit_current fr u w) = nav_links w"
  by (simp_all add: commit_current_def)

lemma publish_route_fields [simp]:
  "current (publish_route env flt fr q w) = current w"
  "navController (publish_route env flt fr q w) = navController w"
  "controllers (publish_route env flt fr q w) = controllers w"
  "aborted (publish_route env flt fr q w) = aborted w"
  "tasks (publish_route env flt fr q w) = tasks w"
  "next_task (publish_route env flt fr q w) = next_task w"
  "scrollPositions (publish_route env flt fr q w) = scrollPositions w"
  "history_ops (publish_route env flt fr q w) = history_ops w"
  "root_attached (publish_route env flt fr q w) = root_attached w"
  "root_tabindex (publish_route env flt fr q w) = root_tabindex w"
  "root_focused (publish_route env flt fr q w) = root_focused w"
  "scroll (publish_route env flt fr q w) = scroll w"
  "nav_links (publish_route env flt fr q w) = nav_links w"
  by (simp_all add: publish_route_def store_setMany_def)

lemma update_history_fields [simp]:
  "current (update_history env fr loc w) = current w"
  "navController (update_history env fr loc w) = navController w"
  "controllers (update_history env fr loc w) = controllers w"
  "aborted (update_history env fr loc w) = aborted w" "tasks (update_history env fr loc w) = tasks w"
  "next_task (update_history env fr loc w) = next_task w"
  "scrollPositions (update_history env fr loc w) = scrollPositions w"
  "store_state (update_history env fr loc w) = store_state w"
  "root_attached (update_history env fr loc w) = root_attached w"
  "root_tabindex (update_history env fr loc w) = root_tabindex w"
  "root_focused (update_history env fr loc w) = root_focused w"
  "scroll (update_history env fr loc w) = scroll w"
  "nav_links (update_history env fr loc w) = nav_links w"
  by (simp_all add: update_history_def)

lemma set_view_attrs_fields [simp]:
  "current (set_view_attrs fr w) = current w"
  "navController (set_view_attrs fr w) = navController w"
  "controllers (set_view_attrs fr w) = controllers w"
  "aborted (set_view_attrs fr w) = aborted w" "tasks (set_view_attrs fr w) = tasks w"
  "next_task (set_view_attrs fr w) = next_task w"
  "scrollPositions (set_view_attrs fr w) = scrollPositions w"
  "history_ops (set_view_attrs fr w) = history_ops w"
  "store_state (set_view_attrs fr w) = store_state w"
  "root_attached (set_view_attrs fr w) = root_attached w"
  "root_tabindex (set_view_attrs fr w) = root_tabindex w"
  "root_focused (set_view_attrs fr w) = root_focused w"
  "scroll (set_view_attrs fr w) = scroll w" "nav_links (set_view_attrs fr w) = nav_links w"
  by (simp_all add: set_view_attrs_def)

lemma setActiveNav_fields [simp]:
  "current (setActiveNav env host p w) = current w"
  "navController (setActiveNav env host p w) = navController w"
  "controllers (setActiveNav env host p w) = controllers w"
  "aborted (setActiveNav env host p w) = aborted w" "tasks (setActiveNav env host p w) = tasks w"
  "next_task (setActiveNav env host p w) = next_task w"
  "scrollPositions (setActiveNav env host p w) = scrollPositions w"
  "history_ops (setActiveNav env host p w) = history_ops w"
  "store_state (setActiveNav env host p w) = store_state w"
  "root_attached (setActiveNav env host p w) = root_attached w"
  "root_tabindex (setActiveNav env host p w) = root_tabindex w"
  "root_focused (setActiveNav env host p w) = root_focused w"
  "scroll (setActiveNav env host p w) = scroll w"
  by (simp_all add: setActiveNav_def)

lemma focus_root_fields [simp]:
  "current (focus_root flt w) = current w"
  "navController (focus_root flt w) = navController w"
  "controllers (focus_root flt w) = controllers w" "aborted (focus_root flt w) = aborted w"
  "tasks (focus_root flt w) = tasks w" "next_task (focus_root flt w) = next_task w"
  "scrollPositions (focus_root flt w) = scrollPositions w"
  "history_ops (focus_root flt w) = history_ops w"
  "store_state (focus_root flt w) = store_state w"
  "root_attached (focus_root flt w) = root_attached w" "scroll (focus_root flt w) = scroll w"
  "nav_links (focus_root flt w) = nav_links w"
  by (simp_all add: focus_root_def Let_def)

lemma apply_scroll_fields [simp]:
  "current (apply_scroll fr w) = current w"
  "navController (apply_scroll fr w) = navController w"
  "controllers (apply_scroll fr w) = controllers w" "aborted (apply_scroll fr w) = aborted w"
  "tasks (apply_scroll fr w) = tasks w" "next_task (apply_scroll fr w) = next_task w"
  "scrollPositions (apply_scroll fr w) = scrollPositions w"
  "history_ops (apply_scroll fr w) = history_ops w"
  "store_state (apply_scroll fr w) = store_state w"
  "root_attached (apply_scroll fr w) = root_attached w"
  "root_tabindex (apply_scroll fr w) = root_tabindex w"
  "root_focused (apply_scroll fr w) = root_focused w"
  "nav_links (apply_scroll fr w) = nav_links w"
  by (simp_all add: apply_scroll_def split: option.splits)

lemma clear_root_fields [simp]:
  "current (clear_root w) = current w" "navController (clear_root w) = navController w"
  "controllers (clear_root w) = controllers w" "aborted (clear_root w) = aborted w"
  "tasks (clear_root w) = tasks w" "next_task (clear_root w) = next_task w"
  "scrollPositions (clear_root w) = scrollPositions w"
  "history_ops (clear_root w) = history_ops w" "store_state (clear_root w) = store_state w"
  "root_attached (clear_root w) = root_attached w"
  "root_tabindex (clear_root w) = root_tabindex w"
  "root_focused (clear_root w) = root_focused w" "scroll (clear_root w) = scroll w"
  "nav_links (clear_root w) = nav_links w"
  by (simp_all add: clear_root_def)

lemma record_call_fields [simp]:
  "current (record_call c w) = current w" "navController (record_call c w) = navController w"
  "controllers (record_call c w) = controllers w" "aborted (record_call c w) = aborted w"
  "tasks (record_call c w) = tasks w" "next_task (record_call c w) = next_task w"
  "scrollPositions (record_call c w) = scrollPositions w"
  "history_ops (record_call c w) = history_ops w"
  "store_state (record_call c w) = store_state w"
  "root_attached (record_call c w) = root_attached w"
  "root_tabindex (record_call c w) = root_tabindex w"
  "root_focused (record_call c w) = root_focused w" "scroll (record_call c w) = scroll w"
  "nav_links (record_call c w) = nav_links w"
  by (simp_all add: record_call_def)

lemma abort_in_flight_fields [simp]:
  "current (abort_in_flight w) = current w" "tasks (abort_in_flight w) = tasks w"
  "next_task (abort_in_flight w) = next_task w"
  "scrollPositions (abort_in_flight w) = scrollPositions w"
  "history_ops (abort_in_flight w) = history_ops w"
  "store_state (abort_in_flight w) = store_state w"
  "root_attached (abort_in_flight w) = root_attached w"
  "root_tabindex (abort_in_flight w) = root_tabindex w"
  "root_focused (abort_in_flight w) = root_focused w" "scroll (abort_in_flight w) = scroll w"
  "nav_links (abort_in_flight w) = nav_links w"
  by (simp_all add: abort_in_flight_def Let_def split: option.splits)

lemma transition_start_fields [simp]:
  "current (transition_start env flt w) = current w"
  "navController (transition_start env flt w) = navController w"
  "controllers (transition_start env flt w) = controllers w"
  "aborted (transition_start env flt w) = aborted w"
  "tasks (transition_start env flt w) = tasks w"
  "next_task (transition_start env flt w) = next_task w"
  "scrollPositions (transition_start env flt w) = scrollPositions w"
  "history_ops (transition_start env flt w) = history_ops w"
  "root_attached (transition_start env flt w) = root_attached w"
  "root_tabindex (transition_start env flt w) = root_tabindex w"
  "root_focused (transition_start env flt w) = root_focused w"
  "scroll (transition_start env flt w) = scroll w"
  "nav_links (transition_start env flt w) = nav_links w"
  by (simp_all add: transition_start_def store_set_def)

lemma save_scroll_fields [simp]:
  "current (save_scroll w) = current w" "navController (save_scroll w) = navController w"
  "controllers (save_scroll w) = controllers w" "aborted (save_scroll w) = aborted w"
  "tasks (save_scroll w) = tasks w" "next_task (save_scroll w) = next_task w"
  "history_ops (save_scroll w) = history_ops w" "store_state (save_scroll w) = store_state w"
  "root_attached (save_scroll w) = root_attached w"
  "root_tabindex (save_scroll w) = root_tabindex w"
  "root_focused (save_scroll w) = root_focused w" "scroll (save_scroll w) = scroll w"
  "nav_links (save_scroll w) = nav_links w"
  by (simp_all add: save_scroll_def split: option.splits)

lemma resume_fields [simp]:
  "current (resume tid w) = current w" "navController (resume tid w) = navController w"
  "controllers (resume tid w) = controllers w" "aborted (resume tid w) = aborted w"
  "next_task (resume tid w) = next_task w"
  "scrollPositions (resume tid w) = scrollPositions w"
  "history_ops (resume tid w) = history_ops w" "store_state (resume tid w) = store_state w"
  "root_attached (resume tid w) = root_attached w"
  "root_tabindex (resume tid w) = root_tabindex w"
  "root_focused (resume tid w) = root_focused w" "scroll (resume tid w) = scroll w"
  "nav_links (resume tid w) = nav_links w"
  by (simp_all add: resume_def)

lemma suspend_fields [simp]:
  "current (snd (suspend st fr w)) = current w"
  "navController (snd (suspend st fr w)) = navController w"
  "controllers (snd (suspend st fr w)) = controllers w"
  "aborted (snd (suspend st fr w)) = aborted w"
  "scrollPositions (snd (suspend st fr w)) = scrollPositions w"
  "history_ops (snd (suspend st fr w)) = history_ops w"
  "store_state (snd (suspend st fr w)) = store_state w"
  "tasks (snd (suspend st fr w)) = (tasks w)(next_task w \<mapsto> (st, fr))"
  "fst (suspend st fr w) = Suspended (next_task w)"
  by (simp_all add: suspend_def)


lemma finish_navigation_fields [simp]:
  "current (snd (finish_navigation env host flt fr q w)) = current w"
  "navController (snd (finish_navigation env host flt fr q w)) = navController w"
  "controllers (snd (finish_navigation env host flt fr q w)) = controllers w"
  "aborted (snd (finish_navigation env host flt fr q w)) = aborted w"
  "tasks (snd (finish_navigation env host flt fr q w)) = tasks w"
  "scrollPositions (snd (finish_navigation env host flt fr q w)) = scrollPositions w"
  "history_ops (snd (finish_navigation env host flt fr q w)) = history_ops w"
  "store_state (snd (finish_navigation env host flt fr q w)) = store_state w"
  "root_attached (snd (finish_navigation env host flt fr q w)) = root_attached w"
  by (simp_all add: finish_navigation_def Let_def split: option.splits)

lemma after_boot_fields [simp]:
  "navController (snd (after_boot env host flt fr u w)) = navController w"
  "controllers (snd (after_boot env host flt fr u w)) = controllers w"
  "aborted (snd (after_boot env host flt fr u w)) = aborted w"
  "tasks (snd (after_boot env host flt fr u w)) = tasks w"
  "scrollPositions (snd (after_boot env host flt fr u w)) = scrollPositions w"
  "root_attached (snd (after_boot env host flt fr u w)) = root_attached w"
  by (simp_all add: after_boot_def Let_def split: option.splits)

lemma after_boot_aborted:
  "fr_signal fr \<in> set (aborted w) \<Longrightarrow> after_boot env host flt fr u w = (Returned, w)"
  by (simp add: after_boot_def)

lemma after_boot_current:
  "fr_signal fr \<notin> set (aborted w) \<Longrightarrow>
   current (snd (after_boot env host flt fr u w)) =
     \<lparr>viewKey = Some (view (fr_resolved fr)), unboot = u,
      cur_path = Some (fr_appPath fr), cur_search = fr_searchStr fr\<rparr>"
  by (simp add: after_boot_def Let_def commit_current_def split: option.splits)

lemma after_boot_accepted:
  assumes "fr_signal fr \<notin> set (aborted w)" "route_query env host fr = Some q"
    "history_location host (history_url env fr) = Some loc"
  shows "after_boot env host flt fr u w =
     finish_navigation env host flt fr q
       (update_history env fr loc (publish_route env flt fr q (commit_current fr u w)))"
  using assms by (simp add: after_boot_def Let_def)

lemma after_boot_history:
  assumes "fr_signal fr \<notin> set (aborted w)" "route_query env host fr = Some q"
    "history_location host (history_url env fr) = Some loc"
  shows "history_ops (snd (after_boot env host flt fr u w)) =
     history_ops w @ [if fr_replace fr then ReplaceState (history_url env fr)
                      else PushState (history_url env fr)]"
  unfolding after_boot_accepted [OF assms] by (simp add: update_history_def)

lemma after_unboot_fields [simp]:
  "navController (snd (after_unboot env host flt fr w)) = navController w"
  "controllers (snd (after_unboot env host flt fr w)) = controllers w"
  "aborted (snd (after_unboot env host flt fr w)) = aborted w"
  "scrollPositions (snd (after_unboot env host flt fr w)) = scrollPositions w"
  by (simp_all add: after_unboot_def split: option.splits)

lemma after_unboot_tasks:
  "tasks (snd (after_unboot env host flt fr w)) tid = Some (st, fr') \<Longrightarrow>
     tasks w tid = Some (st, fr') \<or> fr' = fr"
  by (auto simp: after_unboot_def split: option.splits if_splits)

lemma begin_navigation_fields [simp]:
  "navController (snd (begin_navigation env host flt fr w)) = navController w"
  "controllers (snd (begin_navigation env host flt fr w)) = controllers w"
  "aborted (snd (begin_navigation env host flt fr w)) = aborted w"
  "scrollPositions (snd (begin_navigation env host flt fr w)) = scrollPositions w"
  by (simp_all add: begin_navigation_def split: unboot_val.splits)

lemma begin_navigation_tasks:
  "tasks (snd (begin_navigation env host flt fr w)) tid = Some (st, fr') \<Longrightarrow>
     tasks w tid = Some (st, fr') \<or> fr' = fr"
  by (auto simp: begin_navigation_def split: unboot_val.splits if_splits dest: after_unboot_tasks)

lemma committed_cong:
  "current w' = current w \<Longrightarrow> history_ops w' = history_ops w \<Longrightarrow> store_state w' = store_state w
     \<Longrightarrow> committed w' = committed w"
  by (simp add: committed_def)

lemma committed_after_unboot_aborted:
  assumes "fr_signal fr \<in> set (aborted w)"
  shows "committed (snd (after_unboot env host flt fr w)) = committed w"
proof -
  have "after_boot env host flt fr NotFunction (clear_root w) = (Returned, clear_root w)"
    using assms by (simp add: after_boot_aborted)
  then show ?thesis
    by (auto simp: after_unboot_def committed_def split: option.splits)
qed

section \<open>The scroll ledger\<close>

lemma map_set_keys:
  "map fst (map_set m k v) = (if k \<in> fst ` set m then map fst m else map fst m @ [k])"
  by (induction m) (auto simp: map_set_def)

lemma map_set_length: "length (map_set m k v) = (if k \<in> fst ` set m then length m else Suc (length m))"
  by (simp add: map_set_def)

lemma map_set_distinct: "distinct (map fst m) \<Longrightarrow> distinct (map fst (map_set m k v))"
  by (simp add: map_set_keys)

lemma map_delete_first:
  "distinct (map fst ((k0, v0) # rest)) \<Longrightarrow> map_delete ((k0, v0) # rest) k0 = rest"
  by (force simp: map_delete_def filter_id_conv)


lemma evict_oldest_distinct:
  assumes "distinct (map fst m)"
  shows "evict_oldest m = (if length m > 50 then tl m else m)"
  using assms by (cases m) (auto simp: evict_oldest_def map_delete_first simp del: distinct.simps)

lemma save_scroll_ledger:
  "scrollPositions (save_scroll w) =
     (case cur_path (current w) of
        None \<Rightarrow> scrollPositions w
      | Some p \<Rightarrow> if p = [] then scrollPositions w
                  else evict_oldest (map_set (scrollPositions w) p (scroll w)))"
  by (simp add: save_scroll_def split: option.splits)

lemma evict_map_set_ok:
  assumes "length m \<le> 50" "distinct (map fst m)"
  shows "length (evict_oldest (map_set m k v)) \<le> 50"
    and "distinct (map fst (evict_oldest (map_set m k v)))"
proof -
  have d: "distinct (map fst (map_set m k v))"
    using assms(2) by (rule map_set_distinct)
  have e: "evict_oldest (map_set m k v) =
      (if length (map_set m k v) > 50 then tl (map_set m k v) else map_set m k v)"
    using d by (rule evict_oldest_distinct)
  show "length (evict_oldest (map_set m k v)) \<le> 50"
    using assms(1) by (simp add: e map_set_length)
  show "distinct (map fst (evict_oldest (map_set m k v)))"
    using d by (simp add: e map_tl distinct_tl)
qed

lemma save_scroll_ledger_ok: "ledger_ok w \<Longrightarrow> ledger_ok (save_scroll w)"
  by (auto simp: ledger_ok_def save_scroll_ledger evict_map_set_ok split: option.splits)

section \<open>Invariants of the reachable states\<close>

lemma abort_in_flight_eqs:
  "navController (abort_in_flight w) = Some (controllers w)"
  "controllers (abort_in_flight w) = Suc (controllers w)"
  "aborted (abort_in_flight w) =
     (case navController w of None \<Rightarrow> aborted w | Some c \<Rightarrow> c # aborted w)"
  by (simp_all add: abort_in_flight_def Let_def split: option.splits)

lemma abort_in_flight_tokens_ok: "tokens_ok w \<Longrightarrow> tokens_ok (abort_in_flight w)"
  by (auto simp: tokens_ok_def abort_in_flight_eqs split: if_splits)

lemma superseded_iff:
  assumes "tokens_ok w" "c < controllers w"
  shows "c \<in> set (aborted w) \<longleftrightarrow> navController w \<noteq> Some c"
  using assms by (auto simp: tokens_ok_def)

lemma inv_cong:
  assumes "navController w' = navController w" "controllers w' = controllers w"
    "aborted w' = aborted w" "tasks w' = tasks w" "scrollPositions w' = scrollPositions w"
    "current w' = current w"
  shows "inv env w' = inv env w"
  using assms
  by (simp add: inv_def tokens_ok_def tasks_ok_def frame_ok_def ledger_ok_def current_ok_def)

lemma inv_log [simp]: "inv env (log env' e w) = inv env w"
  by (rule inv_cong) simp_all

lemma inv_clear_root [simp]: "inv env (clear_root w) = inv env w"
  by (rule inv_cong) simp_all

lemma inv_record_call [simp]: "inv env (record_call c w) = inv env w"
  by (rule inv_cong) simp_all

lemma inv_transition_start [simp]: "inv env (transition_start env' flt w) = inv env w"
  by (rule inv_cong) simp_all

lemma frame_ok_cong:
  "controllers w' = controllers w \<Longrightarrow> frame_ok env w' fr = frame_ok env w fr"
  by (simp add: frame_ok_def)

lemma inv_suspend:
  assumes "inv env w" "frame_ok env w fr"
  shows "inv env (snd (suspend st fr w))"
  using assms
  by (auto simp: inv_def tokens_ok_def tasks_ok_def frame_ok_def ledger_ok_def current_ok_def)

lemma inv_after_boot:
  assumes "inv env w" "frame_ok env w fr"
  shows "inv env (snd (after_boot env host flt fr u w))"
proof (cases "fr_signal fr \<in> set (aborted w)")
  case True
  then show ?thesis using assms(1) by (simp add: after_boot_aborted)
next
  case False
  have "current_ok env (snd (after_boot env host flt fr u w))"
    using assms(2) by (simp add: current_ok_def after_boot_current [OF False] frame_ok_def)
  then show ?thesis
    using assms(1) by (simp add: inv_def tokens_ok_def tasks_ok_def frame_ok_def ledger_ok_def)
qed

lemma inv_after_unboot:
  assumes "inv env w" "frame_ok env w fr"
  shows "inv env (snd (after_unboot env host flt fr w))"
proof -
  have f: "frame_ok env (clear_root w) fr"
    "frame_ok env (record_call c (clear_root w)) fr" for c
    using assms(2) by (simp_all add: frame_ok_def)
  show ?thesis
    using assms(1) f
    by (auto simp: after_unboot_def inv_after_boot inv_suspend split: option.splits)
qed

lemma inv_begin_navigation:
  assumes "inv env w" "frame_ok env w fr"
  shows "inv env (snd (begin_navigation env host flt fr w))"
proof -
  have f: "frame_ok env (record_call c w) fr" for c
    using assms(2) by (simp add: frame_ok_def)
  show ?thesis
    using assms f
    by (auto simp: begin_navigation_def inv_after_unboot inv_suspend split: unboot_val.splits)
qed

lemma inv_abort_in_flight:
  assumes "inv env w"
  shows "inv env (abort_in_flight w)"
proof -
  have "tasks_ok env (abort_in_flight w)"
    using assms unfolding inv_def tasks_ok_def frame_ok_def
    by (simp add: abort_in_flight_eqs) (meson less_SucI)
  then show ?thesis
    using assms
    by (simp add: inv_def abort_in_flight_tokens_ok ledger_ok_def current_ok_def)
qed

lemma inv_save_scroll: "inv env w \<Longrightarrow> inv env (save_scroll w)"
  by (auto simp: inv_def save_scroll_ledger_ok tokens_ok_def tasks_ok_def frame_ok_def current_ok_def)

lemma inv_navigate:
  assumes "inv env w"
  shows "inv env (snd (navigate env host flt pathname opts w))"
proof -
  let ?appPath = "normalizePath (stripBase env pathname)"
  show ?thesis
  proof (cases "resolve env ?appPath")
    case (Inl e)
    then show ?thesis using assms by (simp add: navigate_def)
  next
    case (Inr ro)
    show ?thesis
    proof (cases ro)
      case None
      then show ?thesis using assms Inr by (simp add: navigate_def)
    next
      case (Some r)
      let ?w1 = "log env (LogNavigate (cur_path (current w)) ?appPath (view r) (params r)) w"
      let ?fr = "\<lparr>fr_appPath = ?appPath, fr_resolved = r,
                  fr_searchStr = norm_search (search opts), fr_signal = controllers ?w1,
                  fr_replace = replace opts, fr_restoreScroll = restoreScroll opts\<rparr>"
      let ?w6 = "save_scroll (transition_start env flt (abort_in_flight ?w1))"
      have i6: "inv env ?w6"
        using assms by (simp add: inv_save_scroll inv_abort_in_flight)
      have "frame_ok env ?w6 ?fr"
        using Inr Some by (simp add: frame_ok_def abort_in_flight_eqs)
      with i6 have "inv env (snd (begin_navigation env host flt ?fr ?w6))"
        by (rule inv_begin_navigation)
      then show ?thesis
        using assms Inr Some by (simp add: navigate_def Let_def)
    qed
  qed
qed

lemma inv_resume: "inv env w \<Longrightarrow> inv env (resume tid w)"
  by (auto simp: inv_def tokens_ok_def tasks_ok_def frame_ok_def ledger_ok_def current_ok_def
      resume_def)

lemma frame_ok_resume:
  "tasks_ok env w \<Longrightarrow> tasks w tid = Some (st, fr) \<Longrightarrow> frame_ok env (resume tid w) fr"
  by (auto simp: tasks_ok_def frame_ok_def)

lemma inv_step:
  assumes "inv env w"
  shows "inv env (step env host ev w)"
proof (cases ev)
  case (Navigate pathname opts flt)
  then show ?thesis using assms by (simp add: inv_navigate)
next
  case (NavigateQuery patch replace_v flt)
  then show ?thesis using assms by (simp add: navigateQuery_def Let_def inv_navigate)
next
  case (NavigatePath path_v replace_v flt)
  then show ?thesis using assms by (simp add: navigatePath_def Let_def inv_navigate)
next
  case (Start flt)
  have "inv env (w\<lparr>click_listener := True, popstate_listener := True\<rparr>) = inv env w"
    by (rule inv_cong) simp_all
  then show ?thesis using assms Start by (simp add: start_def Let_def inv_navigate)
next
  case Stop
  have "inv env (stop w) = inv env w"
    by (rule inv_cong) (simp_all add: stop_def Let_def split: unboot_val.splits)
  then show ?thesis using assms Stop by simp
next
  case (PopState pathname search_v flt)
  have "inv env (w\<lparr>location_pathname := pathname, location_search := search_v\<rparr>) = inv env w"
    by (rule inv_cong) simp_all
  then show ?thesis using assms PopState by (simp add: onPop_def Let_def inv_navigate)
next
  case (UnbootSettled tid rejected flt)
  show ?thesis
  proof (cases "tasks w tid")
    case None
    then show ?thesis using assms UnbootSettled by simp
  next
    case (Some a)
    obtain st fr where a: "a = (st, fr)" by (cases a)
    have "frame_ok env (resume tid w) fr"
      using assms Some a by (auto simp: inv_def intro: frame_ok_resume)
    then have "inv env (snd (after_unboot env host flt fr (resume tid w)))"
      using assms by (intro inv_after_unboot inv_resume)
    then show ?thesis using assms UnbootSettled Some a by (cases st) simp_all
  qed
next
  case (BootResolved tid unboot_v rendered flt)
  show ?thesis
  proof (cases "tasks w tid")
    case None
    then show ?thesis using assms BootResolved by simp
  next
    case (Some a)
    obtain st fr where a: "a = (st, fr)" by (cases a)
    let ?w = "(resume tid w)\<lparr>root_children := root_children w @ rendered\<rparr>"
    have "frame_ok env (resume tid w) fr"
      using assms Some a by (auto simp: inv_def intro: frame_ok_resume)
    then have f: "frame_ok env ?w fr" by (simp add: frame_ok_def)
    have "inv env ?w = inv env (resume tid w)"
      by (rule inv_cong) simp_all
    then have "inv env ?w" using assms by (simp add: inv_resume)
    then have "inv env (snd (after_boot env host flt fr unboot_v ?w))"
      using f by (rule inv_after_boot)
    then show ?thesis using assms BootResolved Some a by (cases st) simp_all
  qed
next
  case (BootRejected tid)
  then show ?thesis
    using assms by (auto simp: inv_resume split: option.splits stage.splits)
next
  case (UserScroll x y)
  have "inv env (w\<lparr>scroll := (x, y)\<rparr>) = inv env w"
    by (rule inv_cong) simp_all
  then show ?thesis using assms UserScroll by simp
next
  case (RootAttached b)
  have "inv env (w\<lparr>root_attached := b\<rparr>) = inv env w"
    by (rule inv_cong) simp_all
  then show ?thesis using assms RootAttached by simp
next
  case (StoreWrite k v)
  have "inv env (w\<lparr>store_state := (store_state w)(k \<mapsto> v)\<rparr>) = inv env w"
    by (rule inv_cong) simp_all
  then show ?thesis using assms StoreWrite by simp
next
  case (SetNavLinks links)
  have "inv env (w\<lparr>nav_links := links\<rparr>) = inv env w"
    by (rule inv_cong) simp_all
  then show ?thesis using assms SetNavLinks by simp
qed

lemma inv_initial: "initial env w \<Longrightarrow> inv env w"
  by (simp add: initial_def inv_def tokens_ok_def tasks_ok_def ledger_ok_def current_ok_def)

lemma reachable_inv: "reachable env host w \<Longrightarrow> inv env w"
  by (induction rule: reachable.induct) (simp_all add: inv_initial inv_step)

lemma reachable_run: "reachable env host w \<Longrightarrow> reachable env host (run env host evs w)"
  unfolding run_def by (induction evs arbitrary: w) (simp_all add: reachable_step)

lemma navigate_early_exit:
  assumes "\<not> passes_guards env pathname opts w"
  shows "(snd (navigate env host flt pathname opts w))\<lparr>console := console w\<rparr> = w"
  using assms
  by (auto simp: navigate_def passes_guards_def Let_def log_def split: sum.splits option.splits)

lemma navigate_supersedes:
  assumes "passes_guards env pathname opts w"
  shows "navController (snd (navigate env host flt pathname opts w)) = Some (controllers w)"
    and "controllers (snd (navigate env host flt pathname opts w)) = Suc (controllers w)"
    and "aborted (snd (navigate env host flt pathname opts w)) =
           (case navController w of None \<Rightarrow> aborted w | Some c \<Rightarrow> c # aborted w)"
  using assms
  by (auto simp: navigate_def passes_guards_def Let_def abort_in_flight_eqs
      split: sum.splits option.splits)

lemma navigate_sync_eq:
  assumes "root_attached w" "resolve env (normalizePath (stripBase env pathname)) = Inr (Some r)"
    "component r = None" "unboot (current w) = NotFunction"
    "cur_path (current w) \<noteq> Some (normalizePath (stripBase env pathname))"
  shows "navigate env host flt pathname opts w =
     after_boot env host flt
       \<lparr>fr_appPath = normalizePath (stripBase env pathname), fr_resolved = r,
        fr_searchStr = norm_search (search opts), fr_signal = controllers w,
        fr_replace = replace opts, fr_restoreScroll = restoreScroll opts\<rparr>
       NotFunction
       (clear_root (save_scroll (transition_start env flt (abort_in_flight
          (log env (LogNavigate (cur_path (current w)) (normalizePath (stripBase env pathname))
                      (view r) (params r)) w)))))"
  using assms by (simp add: navigate_def Let_def begin_navigation_def after_unboot_def)

lemma navigate_sync:
  assumes "root_attached w" "resolve env (normalizePath (stripBase env pathname)) = Inr (Some r)"
    "component r = None" "unboot (current w) = NotFunction"
    "cur_path (current w) \<noteq> Some (normalizePath (stripBase env pathname))"
    "controllers w \<notin> set (aborted w)" "navController w \<noteq> Some (controllers w)"
  shows "current (snd (navigate env host flt pathname opts w)) =
     \<lparr>viewKey = Some (view r), unboot = NotFunction,
      cur_path = Some (normalizePath (stripBase env pathname)),
      cur_search = norm_search (search opts)\<rparr>"
    and "root_attached (snd (navigate env host flt pathname opts w))"
    and "navController (snd (navigate env host flt pathname opts w)) = Some (controllers w)"
    and "controllers (snd (navigate env host flt pathname opts w)) = Suc (controllers w)"
    and "aborted (snd (navigate env host flt pathname opts w)) =
           (case navController w of None \<Rightarrow> aborted w | Some c \<Rightarrow> c # aborted w)"
proof -
  let ?w1 = "log env (LogNavigate (cur_path (current w)) (normalizePath (stripBase env pathname))
                     (view r) (params r)) w"
  let ?fr = "\<lparr>fr_appPath = normalizePath (stripBase env pathname), fr_resolved = r,
              fr_searchStr = norm_search (search opts), fr_signal = controllers ?w1,
              fr_replace = replace opts, fr_restoreScroll = restoreScroll opts\<rparr>"
  let ?w6 = "save_scroll (transition_start env flt (abort_in_flight ?w1))"
  have nav: "navigate env host flt pathname opts w =
      after_boot env host flt ?fr NotFunction (clear_root ?w6)"
    using assms(1-5) by (simp add: navigate_def Let_def begin_navigation_def after_unboot_def)
  have live: "fr_signal ?fr \<notin> set (aborted (clear_root ?w6))"
    using assms(6,7) by (auto simp: abort_in_flight_eqs split: option.splits)
  show "current (snd (navigate env host flt pathname opts w)) =
     \<lparr>viewKey = Some (view r), unboot = NotFunction,
      cur_path = Some (normalizePath (stripBase env pathname)),
      cur_search = norm_search (search opts)\<rparr>"
    unfolding nav using after_boot_current [OF live] by simp
  show "root_attached (snd (navigate env host flt pathname opts w))"
    unfolding nav using assms(1) by simp
  show "navController (snd (navigate env host flt pathname opts w)) = Some (controllers w)"
    unfolding nav by (simp add: abort_in_flight_eqs)
  show "controllers (snd (navigate env host flt pathname opts w)) = Suc (controllers w)"
    unfolding nav by (simp add: abort_in_flight_eqs)
  show "aborted (snd (navigate env host flt pathname opts w)) =
           (case navController w of None \<Rightarrow> aborted w | Some c \<Rightarrow> c # aborted w)"
    unfolding nav by (simp add: abort_in_flight_eqs split: option.splits)
qed

section \<open>Evaluating the examples\<close>

lemma test_env_eq:
  "test_env =
     \<lparr>compiled = map (\<lambda>r. compiled_of r (path r)) test_routes, compiledFallback = None,
      BASE_PATH = [], has_store = False, debug_on = False\<rparr>"
  by (simp add: test_env_def createRouter_eq test_config_def detect_base_def)

lemma test_env_compiled:
  "compiled test_env =
     [compiled_of \<lparr>path = str ''/'', view = str ''home'', component = None\<rparr> (str ''/''),
      compiled_of \<lparr>path = str ''/users'', view = str ''users'', component = None\<rparr> (str ''/users''),
      compiled_of \<lparr>path = str ''/users/:id'', view = str ''user'', component = None\<rparr>
        (str ''/users/:id''),
      compiled_of \<lparr>path = str ''/users/:id/posts/:postId'', view = str ''post'', component = None\<rparr>
        (str ''/users/:id/posts/:postId'')]"
  by (simp add: test_env_eq test_routes_def)

lemma malformed_percent:
  "normalizePath (str ''/users/%'') = str ''/users/%''"
  "str_match (str ''/users/%'') (Bol # template_items (str ''/'') @ [Eol]) = None"
  "str_match (str ''/users/%'') (Bol # template_items (str ''/users'') @ [Eol]) = None"
  "str_match (str ''/users/%'') (Bol # template_items (str ''/users/:id'') @ [Eol])
     = Some [str ''/users/%'', str ''%'']"
  "param_tokens (str ''/users/:id'') = [str ''id'']"
  "decodeURIComponent (str ''%'') = Inl URIError"
  by code_simp+

lemma resolve_malformed_percent: "resolve test_env (str ''/users/%'') = Inl URIError"
  by (simp add: resolve_def test_env_compiled malformed_percent match_index_def)

lemma malformed_percent_zz:
  "normalizePath (str ''/users/%zz'') = str ''/users/%zz''"
  "str_match (str ''/users/%zz'') (Bol # template_items (str ''/'') @ [Eol]) = None"
  "str_match (str ''/users/%zz'') (Bol # template_items (str ''/users'') @ [Eol]) = None"
  "str_match (str ''/users/%zz'') (Bol # template_items (str ''/users/:id'') @ [Eol])
     = Some [str ''/users/%zz'', str ''%zz'']"
  "decodeURIComponent (str ''%zz'') = Inl URIError"
  by code_simp+

lemma hello_world:
  "normalizePath (str ''/users/hello%20world'') = str ''/users/hello%20world''"
  "str_match (str ''/users/hello%20world'') (Bol # template_items (str ''/'') @ [Eol]) = None"
  "str_match (str ''/users/hello%20world'') (Bol # template_items (str ''/users'') @ [Eol]) = None"
  "str_match (str ''/users/hello%20world'') (Bol # template_items (str ''/users/:id'') @ [Eol])
     = Some [str ''/users/hello%20world'', str ''hello%20world'']"
  "decodable (str ''hello%20world'')"
  "decoded (str ''hello%20world'') = str ''hello world''"
  "str ''id'' \<noteq> str ''__proto__''"
  "normalizePath (str ''/users/a%2520b'') = str ''/users/a%2520b''"
  "str_match (str ''/users/a%2520b'') (Bol # template_items (str ''/'') @ [Eol]) = None"
  "str_match (str ''/users/a%2520b'') (Bol # template_items (str ''/users'') @ [Eol]) = None"
  "str_match (str ''/users/a%2520b'') (Bol # template_items (str ''/users/:id'') @ [Eol])
     = Some [str ''/users/a%2520b'', str ''a%2520b'']"
  "decodable (str ''a%2520b'')"
  "decoded (str ''a%2520b'') = str ''a%20b''"
  by code_simp+

lemma users_42:
  "template_items (str ''/users/:id'') = map Lit (str ''/users/'') @ [Grp]"
  "param_tokens (str ''/users/:id'') = [str ''id'']"
  "str_match (str ''/users/42'') (Bol # map Lit (str ''/users/'') @ [Grp] @ [Eol])
     = Some [str ''/users/42'', str ''42'']"
  "list_all segment [str ''42'']"
  "fill (map Lit (str ''/users/'') @ [Grp]) [str ''42''] = Some (str ''/users/42'')"
  "param_tokens (str ''/users'') = []"
  "template_items (str ''/users'') = map Lit (str ''/users'')"
  "str_match (str ''/users'') (Bol # map Lit (str ''/users'') @ [Eol]) \<noteq> None"
  "str_match (str ''/users/1'') (Bol # map Lit (str ''/users'') @ [Eol]) = None"
  by code_simp+

lemma demo_env_eq:
  "demo_env =
     \<lparr>compiled =
        [compiled_of \<lparr>path = str ''/'', view = str ''home'',
                      component = Some \<lparr>comp_id = 1, has_boot = True\<rparr>\<rparr> (str ''/''),
         compiled_of \<lparr>path = str ''/about'', view = str ''about'',
                      component = Some \<lparr>comp_id = 2, has_boot = True\<rparr>\<rparr> (str ''/about'')],
      compiledFallback = None, BASE_PATH = [], has_store = True, debug_on = False\<rparr>"
  by (simp add: demo_env_def createRouter_eq demo_config_def detect_base_def)

lemma demo_initial: "initial demo_env demo_world"
  by (simp add: initial_def demo_world_def fresh_world_def demo_env_eq)

lemma demo_paths:
  "\<not> startsWith (str ''/'') (str ''//'')"
  "\<not> startsWith (str ''/about'') (str ''//'')"
  "normalizePath (str ''/'') = str ''/''"
  "normalizePath (str ''/about'') = str ''/about''"
  "str_match (str ''/'') (Bol # template_items (str ''/'') @ [Eol]) = Some [str ''/'']"
  "str_match (str ''/about'') (Bol # template_items (str ''/'') @ [Eol]) = None"
  "str_match (str ''/about'') (Bol # template_items (str ''/about'') @ [Eol]) = Some [str ''/about'']"
  "param_tokens (str ''/'') = []"
  "param_tokens (str ''/about'') = []"
  "str ''/'' \<noteq> str ''/about''"
  "str ''/about'' \<noteq> str ''/''"
  "str ''/about'' \<noteq> []"
  by code_simp+

lemma demo_stripBase [simp]: "stripBase demo_env p = p"
  by (simp add: stripBase_def demo_env_eq)

lemma demo_withBase [simp]: "withBase demo_env p = p"
  by (simp add: withBase_def demo_env_eq)

lemma demo_resolve:
  "resolve demo_env (str ''/'') =
     Inr (Some \<lparr>path = str ''/'', view = str ''home'',
                component = Some \<lparr>comp_id = 1, has_boot = True\<rparr>, params = Map.empty\<rparr>)"
  "resolve demo_env (str ''/about'') =
     Inr (Some \<lparr>path = str ''/about'', view = str ''about'',
                component = Some \<lparr>comp_id = 2, has_boot = True\<rparr>, params = Map.empty\<rparr>)"
  by (simp_all add: resolve_def demo_env_eq demo_paths)

lemma demo_has_store [simp]: "has_store demo_env" "\<not> debug_on demo_env"
  by (simp_all add: demo_env_eq)

lemma nav_home:
  "snd (navigate demo_env bare_host no_faults (str ''/'') push_opts demo_world) =
     demo_world\<lparr>navController := Some 0, controllers := 1,
       html_transitioning := Some (str ''on''),
       store_state := [str ''ui.route.transitioning'' \<mapsto> SBool True],
       calls := [CallBoot 1 0 Map.empty],
       tasks := [0 \<mapsto> (AwaitBoot, frame_home)], next_task := 1\<rparr>"
  by (simp add: navigate_def demo_paths demo_resolve Let_def log_def norm_search_def push_opts_def
      no_faults_def demo_world_def fresh_world_def abort_in_flight_def transition_start_def
      store_set_def save_scroll_def begin_navigation_def after_unboot_def clear_root_def
      record_call_def suspend_def frame_home_def)

lemma mounting_home_eq:
  "mounting_home =
     demo_world\<lparr>navController := Some 0, controllers := 1,
       html_transitioning := Some (str ''on''),
       store_state := [str ''ui.route.transitioning'' \<mapsto> SBool True],
       calls := [CallBoot 1 0 Map.empty],
       tasks := [0 \<mapsto> (AwaitBoot, frame_home)], next_task := 1\<rparr>"
  by (simp add: mounting_home_def run_def nav_home)

lemma racing_eq:
  "racing =
     demo_world\<lparr>navController := Some 1, controllers := 2, aborted := [0],
       html_transitioning := Some (str ''on''),
       store_state := [str ''ui.route.transitioning'' \<mapsto> SBool True],
       calls := [CallBoot 1 0 Map.empty, CallBoot 2 1 Map.empty],
       tasks := [0 \<mapsto> (AwaitBoot, frame_home), 1 \<mapsto> (AwaitBoot, frame_about)],
       next_task := 2\<rparr>"
proof -
  have "racing = step demo_env bare_host (Navigate (str ''/about'') push_opts no_faults) mounting_home"
    by (simp add: racing_def mounting_home_def run_def)
  then show ?thesis
    unfolding mounting_home_eq
    by (simp add: navigate_def demo_paths demo_resolve Let_def log_def norm_search_def push_opts_def
      no_faults_def demo_world_def fresh_world_def abort_in_flight_def transition_start_def
      store_set_def save_scroll_def begin_navigation_def after_unboot_def clear_root_def
      record_call_def suspend_def frame_about_def frame_home_def numeral_2_eq_2)
qed

lemma at_home_eq:
  "at_home =
     demo_world\<lparr>current := \<lparr>viewKey = Some (str ''home''), unboot = UnbootFn 7,
                               cur_path = Some (str ''/''), cur_search = []\<rparr>,
       navController := Some 0, controllers := 1,
       html_transitioning := Some (str ''off''), html_view := Some (str ''home''),
       store_state :=
         [str ''ui.route.view'' \<mapsto> SStr (str ''home''),
          str ''ui.route.path'' \<mapsto> SStr (str ''/''),
          str ''ui.route.params'' \<mapsto> SObj Map.empty,
          str ''ui.route.query'' \<mapsto> SObj Map.empty,
          str ''ui.route.transitioning'' \<mapsto> SBool False],
       history_ops := [PushState (str ''/'')],
       root_tabindex := Some (str ''-1''), root_focused := True,
       calls := [CallBoot 1 0 Map.empty],
       tasks := Map.empty, next_task := 1\<rparr>"
proof -
  have "at_home = step demo_env bare_host (BootResolved 0 (UnbootFn 7) [] no_faults) mounting_home"
    by (simp add: at_home_def mounting_home_def run_def)
  then show ?thesis
    unfolding mounting_home_eq
    by (simp add: frame_home_def after_boot_def finish_navigation_def resume_def demo_world_def
      fresh_world_def no_faults_def Let_def commit_current_def publish_route_def
      store_setMany_def route_query_def bare_host_def demo_paths update_history_def
      history_url_def set_view_attrs_def setActiveNav_def setActiveNav_error_def
      focus_root_def apply_scroll_def log_def)
qed

lemma at_about_eq:
  "at_about =
     demo_world\<lparr>current := \<lparr>viewKey = Some (str ''about''), unboot = NotFunction,
                               cur_path = Some (str ''/about''), cur_search = []\<rparr>,
       navController := Some 0, controllers := 1,
       html_transitioning := Some (str ''off''), html_view := Some (str ''about''),
       store_state :=
         [str ''ui.route.view'' \<mapsto> SStr (str ''about''),
          str ''ui.route.path'' \<mapsto> SStr (str ''/about''),
          str ''ui.route.params'' \<mapsto> SObj Map.empty,
          str ''ui.route.query'' \<mapsto> SObj Map.empty,
          str ''ui.route.transitioning'' \<mapsto> SBool False],
       history_ops := [PushState (str ''/about'')],
       location_pathname := str ''/about'',
       root_tabindex := Some (str ''-1''), root_focused := True,
       calls := [CallBoot 2 0 Map.empty],
       tasks := Map.empty, next_task := 1\<rparr>"
proof -
  have m: "step demo_env bare_host (Navigate (str ''/about'') push_opts no_faults) demo_world =
     demo_world\<lparr>navController := Some 0, controllers := 1,
       html_transitioning := Some (str ''on''),
       store_state := [str ''ui.route.transitioning'' \<mapsto> SBool True],
       calls := [CallBoot 2 0 Map.empty],
       tasks := [0 \<mapsto> (AwaitBoot, about_first)], next_task := 1\<rparr>"
    by (simp add: navigate_def demo_paths demo_resolve Let_def log_def norm_search_def push_opts_def
      no_faults_def demo_world_def fresh_world_def abort_in_flight_def transition_start_def
      store_set_def save_scroll_def begin_navigation_def after_unboot_def clear_root_def
      record_call_def suspend_def about_first_def frame_about_def)
  have "at_about = step demo_env bare_host (BootResolved 0 NotFunction [] no_faults)
      (step demo_env bare_host (Navigate (str ''/about'') push_opts no_faults) demo_world)"
    by (simp add: at_about_def run_def)
  then show ?thesis
    unfolding m
    by (simp add: about_first_def frame_about_def after_boot_def finish_navigation_def resume_def
      demo_world_def fresh_world_def no_faults_def Let_def commit_current_def publish_route_def
      store_setMany_def route_query_def bare_host_def demo_paths update_history_def
      history_url_def set_view_attrs_def setActiveNav_def setActiveNav_error_def
      focus_root_def apply_scroll_def log_def)
qed

lemma home_pending_eq:
  "home_pending =
     at_about\<lparr>navController := Some 1, controllers := 2, aborted := [0],
       scrollPositions := [(str ''/about'', (0, 0))],
       html_transitioning := Some (str ''on''),
       store_state :=
         [str ''ui.route.view'' \<mapsto> SStr (str ''about''),
          str ''ui.route.path'' \<mapsto> SStr (str ''/about''),
          str ''ui.route.params'' \<mapsto> SObj Map.empty,
          str ''ui.route.query'' \<mapsto> SObj Map.empty,
          str ''ui.route.transitioning'' \<mapsto> SBool True],
       calls := [CallBoot 2 0 Map.empty, CallBoot 1 1 Map.empty],
       tasks := [1 \<mapsto> (AwaitBoot, home_second)], next_task := 2\<rparr>"
proof -
  have "home_pending = step demo_env bare_host (Navigate (str ''/'') push_opts no_faults) at_about"
    by (simp add: home_pending_def at_about_def run_def)
  then show ?thesis
    unfolding at_about_eq
    by (simp add: navigate_def demo_paths demo_resolve Let_def log_def norm_search_def push_opts_def
      no_faults_def demo_world_def fresh_world_def abort_in_flight_def transition_start_def
      store_set_def save_scroll_def evict_oldest_def map_set_def begin_navigation_def
      after_unboot_def clear_root_def record_call_def suspend_def home_second_def frame_home_def
      numeral_2_eq_2)
qed

lemma nowhere_paths:
  "normalizePath (str ''/nowhere'') = str ''/nowhere''"
  "str_match (str ''/nowhere'') (Bol # template_items (str ''/'') @ [Eol]) = None"
  "str_match (str ''/nowhere'') (Bol # template_items (str ''/about'') @ [Eol]) = None"
  by code_simp+

lemma demo_resolve_nowhere: "resolve demo_env (str ''/nowhere'') = Inr None"
  by (simp add: resolve_def demo_env_eq nowhere_paths)

lemma home_pending_facts:
  "root_attached home_pending"
  "cur_path (current home_pending) = Some (str ''/about'')"
  "cur_search (current home_pending) = []"
  "tasks home_pending 1 = Some (AwaitBoot, home_second)"
  "tasks home_pending (Suc 0) = Some (AwaitBoot, home_second)"
  "aborted home_pending = [0]"
  "navController home_pending = Some 1"
  "history_ops home_pending = [PushState (str ''/about'')]"
  by (simp_all add: home_pending_eq at_about_eq demo_world_def fresh_world_def)

lemma home_pending_exits:
  "navigate demo_env bare_host no_faults (str ''/nowhere'') push_opts home_pending
     = (Returned, home_pending)"
  "navigate demo_env bare_host no_faults (str ''/about'') push_opts home_pending
     = (Returned, home_pending)"
  by (simp_all add: navigate_def home_pending_facts nowhere_paths demo_paths demo_resolve
      demo_resolve_nowhere log_def norm_search_def push_opts_def)

lemma late_commit_eq:
  "late_commit = step demo_env bare_host (BootResolved 1 NotFunction [] no_faults) home_pending"
proof -
  have "late_commit = run demo_env bare_host
     [Navigate (str ''/nowhere'') push_opts no_faults, Navigate (str ''/about'') push_opts no_faults,
      BootResolved 1 NotFunction [] no_faults] home_pending"
    by (simp add: late_commit_def home_pending_def run_def)
  then show ?thesis
    by (simp add: run_def home_pending_exits)
qed

lemma route_keys:
  "str ''ui.route.path'' \<noteq> str ''ui.route.view''"
  "str ''ui.route.path'' \<noteq> str ''ui.route.params''"
  "str ''ui.route.path'' \<noteq> str ''ui.route.query''"
  "str ''ui.route.path'' \<noteq> str ''ui.route.transitioning''"
  by code_simp+

lemma publish_route_path:
  "has_store env \<Longrightarrow> \<not> setMany_throws flt \<Longrightarrow>
     store_state (publish_route env flt fr q w) (str ''ui.route.path'') = Some (SStr (fr_appPath fr))"
  by (simp add: publish_route_def store_setMany_def route_keys)

lemma late_commit_facts:
  "current late_commit =
     \<lparr>viewKey = Some (str ''home''), unboot = NotFunction,
      cur_path = Some (str ''/''), cur_search = []\<rparr>"
  "history_ops late_commit = [PushState (str ''/about''), PushState (str ''/'')]"
  "store_state late_commit (str ''ui.route.path'') = Some (SStr (str ''/''))"
proof -
  let ?w = "(resume 1 home_pending)\<lparr>root_children := root_children home_pending @ []\<rparr>"
  have e: "late_commit = snd (after_boot demo_env bare_host no_faults home_second NotFunction ?w)"
    by (simp add: late_commit_eq home_pending_facts)
  have live: "fr_signal home_second \<notin> set (aborted ?w)"
    by (simp add: home_pending_facts home_second_def)
  have q: "route_query demo_env bare_host home_second = Some Map.empty"
    by (simp add: route_query_def bare_host_def)
  have h: "history_location bare_host (history_url demo_env home_second) = Some (str ''/'', [])"
    by (simp add: history_url_def home_second_def frame_home_def bare_host_def demo_paths)
  have f: "view (fr_resolved home_second) = str ''home''" "fr_appPath home_second = str ''/''"
    "fr_searchStr home_second = []" "\<not> fr_replace home_second"
    "history_url demo_env home_second = str ''/''"
    by (simp_all add: home_second_def frame_home_def history_url_def)
  show "current late_commit =
     \<lparr>viewKey = Some (str ''home''), unboot = NotFunction,
      cur_path = Some (str ''/''), cur_search = []\<rparr>"
    unfolding e after_boot_current [OF live] by (simp add: f)
  show "history_ops late_commit = [PushState (str ''/about''), PushState (str ''/'')]"
    unfolding e after_boot_history [OF live q h] by (simp add: f home_pending_facts)
  show "store_state late_commit (str ''ui.route.path'') = Some (SStr (str ''/''))"
    unfolding e after_boot_accepted [OF live q h]
    by (simp add: update_history_def publish_route_path no_faults_def f)
qed

lemma rooted_facts:
  "detect_base (Some (str ''/'')) = str ''/''"
  "str ''/'' \<noteq> []"
  "str ''/users'' \<noteq> str ''/''"
  "startsWith (str ''/users'') (str ''/'')"
  "str ''/'' @ str ''/users'' = str ''//users''"
  "startsWith (str ''//users'') (str ''//'')"
  "drop (length (str ''/'')) (str ''/users'') = str ''users''"
  "str ''users'' \<noteq> []"
  "\<not> startsWith (str ''users'') (str ''/'')"
  "str ''/'' @ str ''users'' = str ''/users''"
  "normalizePath (str ''/users'') = str ''/users''"
  "str_match (str ''/users'') (Bol # template_items (str ''/'') @ [Eol]) = None"
  "str_match (str ''/users'') (Bol # template_items (str ''/users'') @ [Eol])
     = Some [str ''/users'']"
  by code_simp+

lemma demo_reachable: "reachable demo_env bare_host (run demo_env bare_host evs demo_world)"
  by (intro reachable_run reachable_initial demo_initial)


lemma based_facts:
  "BASE_PATH based_env = str ''/app''"
  "stripBase based_env (str ''/app/app/x'') = str ''/app/x''"
  "stripBase based_env (str ''/app/x'') = str ''/x''"
  "normalizePath (str ''/app/x'') = str ''/app/x''"
  "normalizePath (str ''/x'') = str ''/x''"
  "str_match (str ''/app/x'') (Bol # template_items (str ''/app/x'') @ [Eol]) = Some [str ''/app/x'']"
  "str_match (str ''/x'') (Bol # template_items (str ''/app/x'') @ [Eol]) = None"
  "str_match (str ''/x'') (Bol # template_items (str ''/x'') @ [Eol]) = Some [str ''/x'']"
  "param_tokens (str ''/app/x'') = []"
  "param_tokens (str ''/x'') = []"
  "str ''/app/x'' \<noteq> str ''/x''"
  "str ''/app/x'' \<noteq> []"
  by code_simp+

lemma based_env_eq:
  "based_env =
     \<lparr>compiled =
        [compiled_of \<lparr>path = str ''/app/x'', view = str ''inner'', component = None\<rparr> (str ''/app/x''),
         compiled_of \<lparr>path = str ''/x'', view = str ''outer'', component = None\<rparr> (str ''/x'')],
      compiledFallback = None, BASE_PATH = detect_base (Some (str ''/app/'')),
      has_store = False, debug_on = False\<rparr>"
  by (simp add: based_env_def createRouter_eq based_config_def)

lemma based_resolve:
  "resolve based_env (str ''/app/x'') =
     Inr (Some \<lparr>path = str ''/app/x'', view = str ''inner'', component = None, params = Map.empty\<rparr>)"
  "resolve based_env (str ''/x'') =
     Inr (Some \<lparr>path = str ''/x'', view = str ''outer'', component = None, params = Map.empty\<rparr>)"
  by (simp_all add: resolve_def based_env_eq based_facts)

lemma based_flags [simp]: "\<not> has_store based_env" "\<not> debug_on based_env"
  by (simp_all add: based_env_eq)

section \<open>C1: the supersession guard\<close>

text \<open>
  C1, as stated, fails in its second half. At \<open>/about\<close>, a navigation to \<open>/\<close> is
  suspended at its mount; then \<open>navigate\<close> is called for a path without a route and
  for \<open>/about\<close> itself. Both calls were started later, both return at an early exit
  and cancel nothing; when the mount of \<open>/\<close> resolves, the earlier navigation
  replaces NavigationState, pushes its history entry and writes the store.
\<close>

theorem later_call_cancels_nothing:
  "tasks home_pending 1 = Some (AwaitBoot, home_second)
   \<and> cur_path (current home_pending) = Some (str ''/about'')
   \<and> history_ops home_pending = [PushState (str ''/about'')]
   \<and> navigate demo_env bare_host no_faults (str ''/nowhere'') push_opts home_pending
       = (Returned, home_pending)
   \<and> navigate demo_env bare_host no_faults (str ''/about'') push_opts home_pending
       = (Returned, home_pending)
   \<and> late_commit = step demo_env bare_host (BootResolved 1 NotFunction [] no_faults) home_pending
   \<and> cur_path (current late_commit) = Some (str ''/'')
   \<and> viewKey (current late_commit) = Some (str ''home'')
   \<and> history_ops late_commit = [PushState (str ''/about''), PushState (str ''/'')]
   \<and> store_state late_commit (str ''ui.route.path'') = Some (SStr (str ''/''))"
  using home_pending_exits late_commit_eq
  by (simp add: home_pending_facts late_commit_facts)

text \<open>
  C1, amended. In every reachable state, for every suspended navigation A: A's token is
  cancelled exactly when A's controller is no longer the one created last. If it is
  cancelled when A's mount completes, the step that resumes A does nothing but end A:
  NavigationState, the history and the store are as they were (the same holds when A is
  resumed from the await of the outgoing unmount). So a resumed navigation that changes
  any of them holds the controller created last. A later call of \<open>navigate\<close> cancels
  A's token when it gets past its early exits (the mount point exists, the path resolves,
  and the path or the search differs from NavigationState); a call that ends at an early
  exit changes nothing but the debug console, so A stays as it was.
\<close>

theorem supersession_guard:
  assumes "reachable env host w" "tasks w tid = Some (st, fr)"
  shows "(fr_signal fr \<in> set (aborted w) \<longleftrightarrow> navController w \<noteq> Some (fr_signal fr))
     \<and> (navController w = Some (fr_signal fr) \<longrightarrow> controllers w = Suc (fr_signal fr))
     \<and> (fr_signal fr \<in> set (aborted w) \<and> st = AwaitBoot \<longrightarrow>
          step env host (BootResolved tid u rendered flt) w =
            (resume tid w)\<lparr>root_children := root_children w @ rendered\<rparr>)
     \<and> (fr_signal fr \<in> set (aborted w) \<longrightarrow>
          committed (step env host (BootResolved tid u rendered flt) w) = committed w
          \<and> committed (step env host (UnbootSettled tid rejected flt) w) = committed w)
     \<and> (committed (step env host (BootResolved tid u rendered flt) w) \<noteq> committed w
          \<or> committed (step env host (UnbootSettled tid rejected flt) w) \<noteq> committed w \<longrightarrow>
          navController w = Some (fr_signal fr) \<and> controllers w = Suc (fr_signal fr))
     \<and> (passes_guards env pathname opts w \<longrightarrow>
          fr_signal fr \<in> set (aborted (snd (navigate env host flt' pathname opts w)))
          \<and> navController (snd (navigate env host flt' pathname opts w)) = Some (controllers w)
          \<and> fr_signal fr < controllers w)
     \<and> (\<not> passes_guards env pathname opts w \<longrightarrow>
          (snd (navigate env host flt' pathname opts w))\<lparr>console := console w\<rparr> = w)"
proof -
  have i: "tokens_ok w" "tasks_ok env w"
    using reachable_inv [OF assms(1)] by (simp_all add: inv_def)
  have lt: "fr_signal fr < controllers w"
    using i(2) assms(2) by (auto simp: tasks_ok_def frame_ok_def)
  have a: "fr_signal fr \<in> set (aborted w) \<longleftrightarrow> navController w \<noteq> Some (fr_signal fr)"
    using i(1) lt by (rule superseded_iff)
  have b: "navController w = Some (fr_signal fr) \<longrightarrow> controllers w = Suc (fr_signal fr)"
    using i(1) lt by (auto simp: tokens_ok_def split: if_splits)
  let ?w = "(resume tid w)\<lparr>root_children := root_children w @ rendered\<rparr>"
  have c: "step env host (BootResolved tid u rendered flt) w = ?w"
    if "fr_signal fr \<in> set (aborted w)" "st = AwaitBoot"
  proof -
    have "fr_signal fr \<in> set (aborted ?w)" using that(1) by simp
    then show ?thesis
      using assms(2) that(2) by (simp add: after_boot_aborted)
  qed
  have d1: "committed (step env host (BootResolved tid u rendered flt) w) = committed w"
    if "fr_signal fr \<in> set (aborted w)"
  proof (cases st)
    case AwaitUnboot
    then show ?thesis using assms(2) by simp
  next
    case AwaitBoot
    then show ?thesis using c [OF that] by (simp add: committed_def)
  qed
  have d2: "committed (step env host (UnbootSettled tid rejected flt) w) = committed w"
    if "fr_signal fr \<in> set (aborted w)"
  proof (cases st)
    case AwaitUnboot
    have "fr_signal fr \<in> set (aborted (resume tid w))" using that by simp
    then have "committed (snd (after_unboot env host flt fr (resume tid w))) = committed (resume tid w)"
      by (rule committed_after_unboot_aborted)
    then show ?thesis using assms(2) AwaitUnboot by (simp add: committed_def)
  next
    case AwaitBoot
    then show ?thesis using assms(2) by simp
  qed
  have e: "fr_signal fr \<in> set (aborted (snd (navigate env host flt' pathname opts w)))
          \<and> navController (snd (navigate env host flt' pathname opts w)) = Some (controllers w)
          \<and> fr_signal fr < controllers w"
    if "passes_guards env pathname opts w"
  proof (cases "fr_signal fr \<in> set (aborted w)")
    case True
    then show ?thesis
      using lt by (simp add: navigate_supersedes [OF that] split: option.splits)
  next
    case False
    then have "navController w = Some (fr_signal fr)" using a by simp
    then show ?thesis
      using lt by (simp add: navigate_supersedes [OF that])
  qed
  have f: "(snd (navigate env host flt' pathname opts w))\<lparr>console := console w\<rparr> = w"
    if "\<not> passes_guards env pathname opts w"
    using that by (rule navigate_early_exit)
  from a b c d1 d2 e f show ?thesis by blast
qed

text \<open>
  C1, at an instance: a navigation to \<open>/about\<close> starts while the one to \<open>/\<close> is
  mounting and cancels it; when the mount of \<open>/\<close> resolves, nothing is committed.
\<close>

theorem supersession_guard_witness:
  "tasks racing 0 = Some (AwaitBoot, frame_home)
   \<and> fr_signal frame_home \<in> set (aborted racing)
   \<and> navController racing = Some 1
   \<and> step demo_env bare_host (BootResolved 0 NotFunction [] no_faults) racing
       = (resume 0 racing)\<lparr>root_children := root_children racing @ []\<rparr>
   \<and> committed (step demo_env bare_host (BootResolved 0 NotFunction [] no_faults) racing)
       = committed racing
   \<and> passes_guards demo_env (str ''/about'') push_opts mounting_home
   \<and> tasks mounting_home 0 = Some (AwaitBoot, frame_home)
   \<and> fr_signal frame_home \<in> set (aborted (snd (navigate demo_env bare_host no_faults
         (str ''/about'') push_opts mounting_home)))"
proof -
  have r: "reachable demo_env bare_host racing"
    unfolding racing_def by (rule demo_reachable)
  have t: "tasks racing 0 = Some (AwaitBoot, frame_home)"
    by (simp add: racing_eq)
  have a: "fr_signal frame_home \<in> set (aborted racing)"
    by (simp add: racing_eq frame_home_def)
  have n: "navController racing = Some 1"
    by (simp add: racing_eq)
  from supersession_guard [where u = NotFunction and rendered = "[]" and flt = no_faults, OF r t] a
  have 1: "step demo_env bare_host (BootResolved 0 NotFunction [] no_faults) racing
       = (resume 0 racing)\<lparr>root_children := root_children racing @ []\<rparr>"
    and 2: "committed (step demo_env bare_host (BootResolved 0 NotFunction [] no_faults) racing)
       = committed racing"
    by blast+
  have r': "reachable demo_env bare_host mounting_home"
    unfolding mounting_home_def by (rule demo_reachable)
  have t': "tasks mounting_home 0 = Some (AwaitBoot, frame_home)"
    by (simp add: mounting_home_eq)
  have g: "passes_guards demo_env (str ''/about'') push_opts mounting_home"
    by (simp add: passes_guards_def mounting_home_eq demo_world_def fresh_world_def demo_paths
        demo_resolve)
  from supersession_guard [where pathname = "str ''/about''" and opts = push_opts
      and flt' = no_faults, OF r' t'] g
  have 3: "fr_signal frame_home \<in> set (aborted (snd (navigate demo_env bare_host no_faults
         (str ''/about'') push_opts mounting_home)))"
    by blast
  from t a n 1 2 3 g t' show ?thesis by blast
qed

section \<open>C2: resolve\<close>

text \<open>
  C2, as stated, fails: \<open>/users/%\<close> matches the route \<open>/users/:id\<close> of the
  self-test, and \<open>resolve\<close> throws instead of returning that route's result.
\<close>

theorem resolve_matched_route_throws:
  "str_match (normalizePath (str ''/users/%'')) (regex (compiled test_env ! 2)) \<noteq> None
   \<and> resolve test_env (str ''/users/%'') = Inl URIError"
  by (simp add: resolve_malformed_percent test_env_compiled malformed_percent)

text \<open>
  C2, amended. The compiled routes are the configured ones in order, each with the matcher
  of its template. \<open>resolve\<close> normalises the pathname and takes the first route whose
  matcher matches: when every captured segment percent-decodes, it returns that route
  with params giving each parameter name its decoded segment; when one does not, it throws
  \<open>URIError\<close> (no later route and no fallback is tried). When no route matches it
  returns the fallback with empty params, or no route when there is no fallback.
\<close>

theorem resolve_first_match:
  assumes "createRouter cfg base = Inr env"
  shows "map path (compiled env) = map path (routes cfg)
     \<and> (\<forall>r \<in> set (compiled env). compilePattern (path r) = Inr (regex r, paramNames r))
     \<and> (\<forall>pre r post m.
           compiled env = pre @ r # post
           \<and> (\<forall>q \<in> set pre. str_match (normalizePath pathname) (regex q) = None)
           \<and> str_match (normalizePath pathname) (regex r) = Some m \<longrightarrow>
           resolve env pathname =
             (if list_all decodable (tl m)
              then Inr (Some \<lparr>path = path r, view = view r, component = component r,
                              params = params_of (paramNames r) (tl m)\<rparr>)
              else Inl URIError))
     \<and> ((\<forall>q \<in> set (compiled env). str_match (normalizePath pathname) (regex q) = None) \<longrightarrow>
           resolve env pathname = Inr (map_option fallback_result (compiledFallback env)))"
proof -
  let ?p = "normalizePath pathname"
  have env: "compiled env = map (\<lambda>r. compiled_of r (path r)) (routes cfg)"
    using assms by (auto simp: createRouter_eq)
  have a: "map path (compiled env) = map path (routes cfg)"
    by (simp add: env compiled_of_def comp_def)
  have b: "\<forall>r \<in> set (compiled env). compilePattern (path r) = Inr (regex r, paramNames r)"
    by (auto simp: env compiled_of_def compilePattern_eq)
  have c: "resolve env pathname =
             (if list_all decodable (tl m)
              then Inr (Some \<lparr>path = path r, view = view r, component = component r,
                              params = params_of (paramNames r) (tl m)\<rparr>)
              else Inl URIError)"
    if h: "compiled env = pre @ r # post"
      "\<forall>q \<in> set pre. str_match ?p (regex q) = None"
      "str_match ?p (regex r) = Some m" for pre r post m
  proof -
    have "r \<in> set (compiled env)" using h(1) by simp
    then obtain t where t: "regex r = Bol # template_items t @ [Eol]" "paramNames r = param_tokens t"
      by (auto simp: env compiled_of_def)
    have len: "length m = Suc (length (paramNames r))"
      using str_match_template [of ?p t m] h(3) t by auto
    have "resolve env pathname = resolve_loop (r # post) (compiledFallback env) ?p"
      unfolding resolve_def h(1) using h(2) by (rule resolve_loop_skip)
    then show ?thesis
      using resolve_loop_hit [OF h(3) len] by simp
  qed
  have d: "(\<forall>q \<in> set (compiled env). str_match ?p (regex q) = None) \<longrightarrow>
           resolve env pathname = Inr (map_option fallback_result (compiledFallback env))"
    by (simp add: resolve_def resolve_loop_none)
  from a b c d show ?thesis by blast
qed

text \<open>
  C2, at instances from the self-test: \<open>/users/hello%20world\<close> gives
  \<open>params.id = "hello world"\<close>; \<open>/users/a%2520b\<close> is decoded once; \<open>/users/%\<close>
  throws.
\<close>

theorem resolve_first_match_witness:
  "createRouter test_config None = Inr test_env
   \<and> resolve test_env (str ''/users/hello%20world'') =
       Inr (Some \<lparr>path = str ''/users/:id'', view = str ''user'', component = None,
                  params = [str ''id'' \<mapsto> str ''hello world'']\<rparr>)
   \<and> resolve test_env (str ''/users/a%2520b'') =
       Inr (Some \<lparr>path = str ''/users/:id'', view = str ''user'', component = None,
                  params = [str ''id'' \<mapsto> str ''a%20b'']\<rparr>)
   \<and> resolve test_env (str ''/users/%'') = Inl URIError"
proof -
  have cr: "createRouter test_config None = Inr test_env"
    by (simp add: test_env_def createRouter_eq)
  let ?c = "\<lambda>i. compiled test_env ! i"
  have parts: "compiled test_env = [?c 0, ?c 1] @ ?c 2 # [?c 3]"
    by (simp add: test_env_compiled)
  note rfm = resolve_first_match [OF cr]
  have hit: "resolve test_env pathname =
      (if list_all decodable (tl m)
       then Inr (Some \<lparr>path = path (?c 2), view = view (?c 2), component = component (?c 2),
                       params = params_of (paramNames (?c 2)) (tl m)\<rparr>)
       else Inl URIError)"
    if "\<forall>q \<in> set [?c 0, ?c 1]. str_match (normalizePath pathname) (regex q) = None"
      "str_match (normalizePath pathname) (regex (?c 2)) = Some m" for pathname m
    using rfm [of pathname] parts that by blast
  have a: "resolve test_env (str ''/users/hello%20world'') =
       Inr (Some \<lparr>path = str ''/users/:id'', view = str ''user'', component = None,
                  params = [str ''id'' \<mapsto> str ''hello world'']\<rparr>)"
    using hit [of "str ''/users/hello%20world''" "[str ''/users/hello%20world'', str ''hello%20world'']"]
    by (simp add: test_env_compiled hello_world malformed_percent(5) params_of_def)
  have b: "resolve test_env (str ''/users/%'') = Inl URIError"
    using hit [of "str ''/users/%''" "[str ''/users/%'', str ''%'']"]
    by (simp add: test_env_compiled malformed_percent decodable_def)
  have c: "resolve test_env (str ''/users/a%2520b'') =
       Inr (Some \<lparr>path = str ''/users/:id'', view = str ''user'', component = None,
                  params = [str ''id'' \<mapsto> str ''a%20b'']\<rparr>)"
    using hit [of "str ''/users/a%2520b''" "[str ''/users/a%2520b'', str ''a%2520b'']"]
    by (simp add: test_env_compiled hello_world malformed_percent(5) params_of_def)
  from cr a b c show ?thesis by blast
qed

section \<open>C3: compilePattern\<close>

text \<open>
  C3. For every template, \<open>compilePattern\<close> succeeds; \<open>paramNames\<close> are the
  parameter tokens from left to right; the regular expression is the start anchor, then
  one group of non-slash characters per token and one literal character per other
  character of the template, then the end anchor, so it has as many groups as there are
  names. A path matches exactly when it is the template with a segment in the place of
  each token, the match is the whole path, and there is one capture per name. With no
  token, the names are empty and only the template itself matches.
\<close>

theorem compilePattern_spec:
  "\<exists>rx names. compilePattern t = Inr (rx, names)
     \<and> names = param_tokens t
     \<and> rx = Bol # template_items t @ [Eol]
     \<and> count_groups rx = length names
     \<and> (\<forall>p m. str_match p rx = Some m \<longrightarrow>
           (\<exists>segs. m = p # segs \<and> length segs = length names \<and> list_all segment segs
              \<and> fill (template_items t) segs = Some p))
     \<and> (\<forall>p segs. list_all segment segs \<and> fill (template_items t) segs = Some p \<longrightarrow>
           str_match p rx \<noteq> None)
     \<and> (names = [] \<longrightarrow> (\<forall>p. str_match p rx \<noteq> None \<longleftrightarrow> p = t))"
proof -
  let ?rx = "Bol # template_items t @ [Eol]"
  have "count_groups ?rx = length (param_tokens t)"
    using count_groups_template [of t] by (simp add: count_groups_def)
  moreover have "\<forall>p m. str_match p ?rx = Some m \<longrightarrow>
      (\<exists>segs. m = p # segs \<and> length segs = length (param_tokens t) \<and> list_all segment segs
         \<and> fill (template_items t) segs = Some p)"
    using str_match_template by blast
  moreover have "\<forall>p segs. list_all segment segs \<and> fill (template_items t) segs = Some p \<longrightarrow>
      str_match p ?rx \<noteq> None"
    using str_match_template_complete by blast
  moreover have "param_tokens t = [] \<longrightarrow> (\<forall>p. str_match p ?rx \<noteq> None \<longleftrightarrow> p = t)"
    using str_match_literal by blast
  ultimately show ?thesis
    using compilePattern_eq [of t] by blast
qed

text \<open>
  C3, at the templates \<open>/users/:id\<close> and \<open>/users\<close> of the self-test.
\<close>

theorem compilePattern_spec_witness:
  "compilePattern (str ''/users/:id'') = Inr (Bol # map Lit (str ''/users/'') @ [Grp, Eol], [str ''id''])
   \<and> count_groups (Bol # map Lit (str ''/users/'') @ [Grp, Eol]) = 1
   \<and> str_match (str ''/users/42'') (Bol # map Lit (str ''/users/'') @ [Grp, Eol])
       = Some [str ''/users/42'', str ''42'']
   \<and> fill (template_items (str ''/users/:id'')) [str ''42''] = Some (str ''/users/42'')
   \<and> compilePattern (str ''/users'') = Inr (Bol # map Lit (str ''/users'') @ [Eol], [])
   \<and> str_match (str ''/users'') (Bol # map Lit (str ''/users'') @ [Eol]) \<noteq> None
   \<and> str_match (str ''/users/1'') (Bol # map Lit (str ''/users'') @ [Eol]) = None"
proof -
  have t1: "template_items (str ''/users/:id'') = map Lit (str ''/users/'') @ [Grp]"
    and n1: "param_tokens (str ''/users/:id'') = [str ''id'']"
    by (rule users_42)+
  from compilePattern_spec [of "str ''/users/:id''"]
  have p: "compilePattern (str ''/users/:id'')
        = Inr (Bol # map Lit (str ''/users/'') @ [Grp, Eol], [str ''id''])
      \<and> count_groups (Bol # map Lit (str ''/users/'') @ [Grp, Eol]) = 1
      \<and> (\<forall>p m. str_match p (Bol # map Lit (str ''/users/'') @ [Grp, Eol]) = Some m \<longrightarrow>
            (\<exists>segs. m = p # segs \<and> length segs = 1 \<and> list_all segment segs
               \<and> fill (map Lit (str ''/users/'') @ [Grp]) segs = Some p))"
    unfolding t1 n1 by simp
  have m: "str_match (str ''/users/42'') (Bol # map Lit (str ''/users/'') @ [Grp, Eol])
      = Some [str ''/users/42'', str ''42'']"
    using users_42(3) by simp
  from p have "\<exists>segs. [str ''/users/42'', str ''42''] = str ''/users/42'' # segs
      \<and> length segs = 1 \<and> list_all segment segs
      \<and> fill (map Lit (str ''/users/'') @ [Grp]) segs = Some (str ''/users/42'')"
    using m by blast
  then have f: "fill (template_items (str ''/users/:id'')) [str ''42''] = Some (str ''/users/42'')"
    unfolding t1 by auto
  have t2: "template_items (str ''/users'') = map Lit (str ''/users'')"
    and n2: "param_tokens (str ''/users'') = []"
    by (rule users_42)+
  from compilePattern_spec [of "str ''/users''"]
  have q: "compilePattern (str ''/users'') = Inr (Bol # map Lit (str ''/users'') @ [Eol], [])
      \<and> (\<forall>p. str_match p (Bol # map Lit (str ''/users'') @ [Eol]) \<noteq> None \<longleftrightarrow> p = str ''/users'')"
    unfolding t2 n2 by simp
  have h: "str ''/users/1'' \<noteq> str ''/users''" by code_simp
  from q h have g: "str_match (str ''/users'') (Bol # map Lit (str ''/users'') @ [Eol]) \<noteq> None"
    "str_match (str ''/users/1'') (Bol # map Lit (str ''/users'') @ [Eol]) = None"
    by blast+
  from p m f q g show ?thesis by simp
qed

section \<open>C4: idempotence of normalizePath\<close>

text \<open>
  C4, as stated: \<open>normalizePath(normalizePath(p)) = normalizePath(p)\<close> for every
  string. It fails at \<open>/a//\<close>: one trailing slash is removed per call, so the first
  call gives \<open>/a/\<close> and the second \<open>/a\<close>.
\<close>

theorem normalizePath_not_idempotent:
  "normalizePath (normalizePath (str ''/a//'')) \<noteq> normalizePath (str ''/a//'')"
  by (simp add: normalizePath_def endsWith_def str_def slash_def)

text \<open>
  C4, amended: \<open>normalizePath\<close> is idempotent at \<open>p\<close> exactly when \<open>p\<close>, with the
  leading slash prefixed, neither ends in two slashes (the path \<open>//\<close> apart) nor is
  \<open>/index.html/\<close>.
\<close>

theorem normalizePath_idempotent_iff:
  "normalizePath (normalizePath p) = normalizePath p \<longleftrightarrow>
    \<not> (length (with_leading_slash p) > 2 \<and> endsWith (with_leading_slash p) (str ''//''))
    \<and> with_leading_slash p \<noteq> str ''/index.html/''"
proof -
  let ?q = "with_leading_slash p"
  let ?n = "normalizePath p"
  have q: "?q \<noteq> []" "hd ?q = slash"
    by (simp_all add: with_leading_slash_nonempty with_leading_slash_hd)
  have ih: "str ''/index.html/'' = str ''/index.html'' @ [slash]"
    by (simp add: str_def slash_def)
  show ?thesis
  proof (cases "?q = str ''/index.html''")
    case True
    then have "?n = str ''/''" by (simp add: normalizePath_alt)
    moreover have "\<not> endsWith ?q (str ''//'')"
      using True index_html_last by (simp add: endsWith_two_slashes)
    moreover have "?q \<noteq> str ''/index.html/''"
      using True by (simp add: ih)
    ultimately show ?thesis by (simp add: normalizePath_def str_def slash_def)
  next
    case nidx: False
    show ?thesis
    proof (cases "length ?q > 1 \<and> last ?q = slash")
      case True
      then have n: "?n = butlast ?q"
        using nidx by (simp add: normalizePath_alt)
      obtain ys where ys: "?q = ys @ [slash]" "ys \<noteq> []"
        using True q(1) by (cases ?q rule: rev_cases) auto
      have n': "?n = ys" using n ys by simp
      have hd_ys: "hd ys = slash" using q(2) ys by simp
      have lhs: "normalizePath ys = ys \<longleftrightarrow>
          ys = str ''/'' \<or> (last ys \<noteq> slash \<and> ys \<noteq> str ''/index.html'')"
        using ys(2) hd_ys by (rule normalizePath_fixed)
      have a: "ys = str ''/'' \<longleftrightarrow> \<not> length ?q > 2"
        using ys hd_ys by (cases ys) (auto simp: str_slash)
      have b: "ys = str ''/index.html'' \<longleftrightarrow> ?q = str ''/index.html/''"
        using ys by (simp add: ih)
      have c: "endsWith ?q (str ''//'') \<longleftrightarrow> last ys = slash"
        using ys by (cases ys) (auto simp: endsWith_two_slashes)
      have d: "ys = str ''/'' \<Longrightarrow> last ys = slash \<and> ys \<noteq> str ''/index.html''"
        by (simp add: str_def slash_def)
      show ?thesis
        unfolding n' lhs a b c using a b d by blast
    next
      case False
      then have n: "?n = ?q"
        using nidx by (auto simp: normalizePath_alt)
      have lhs: "normalizePath ?q = ?q \<longleftrightarrow>
          ?q = str ''/'' \<or> (last ?q \<noteq> slash \<and> ?q \<noteq> str ''/index.html'')"
        using q by (rule normalizePath_fixed)
      have a: "\<not> length ?q > 1 \<Longrightarrow> ?q = str ''/''"
        using q by (cases ?q) (auto simp: str_slash)
      have b: "?q = str ''/'' \<Longrightarrow> \<not> length ?q > 2"
        by (simp add: str_def)
      have c: "endsWith ?q (str ''//'') \<Longrightarrow> last ?q = slash"
        by (simp add: endsWith_two_slashes)
      have d: "?q = str ''/index.html/'' \<Longrightarrow> length ?q > 1 \<and> last ?q = slash"
        by (simp add: ih index_html_length)
      show ?thesis
        unfolding n lhs using False nidx a b c d by blast
    qed
  qed
qed

theorem normalizePath_idempotent_iff_witness:
  "normalizePath (normalizePath (str ''users/'')) = normalizePath (str ''users/'')
   \<and> normalizePath (str ''users/'') = str ''/users''"
  using normalizePath_idempotent_iff [of "str ''users/''"]
  by (simp add: normalizePath_def with_leading_slash_def endsWith_def str_def slash_def)

section \<open>C5: failures of collaborators\<close>




text \<open>
  The history call is not inside a \<open>try\<close>. Under a \<open>base\<close> element whose href
  is \<open>/\<close> the base path is \<open>/\<close> and the URL built for \<open>/users\<close> is
  \<open>//users\<close>, which names another host; a browser that refuses it ends \<open>navigate\<close> with \<open>SecurityError\<close> after
  NavigationState was replaced and before the history entry, the focus and the scroll.
\<close>

lemma history_refused:
  assumes "fr_signal fr \<notin> set (aborted w)"
    "url_searchParams host (history_url env fr) = Some ps"
    "history_location host (history_url env fr) = None"
  shows "fst (after_boot env host flt fr u w) = Threw SecurityError"
    and "cur_path (current (snd (after_boot env host flt fr u w))) = Some (fr_appPath fr)"
    and "history_ops (snd (after_boot env host flt fr u w)) = history_ops w"
    and "root_focused (snd (after_boot env host flt fr u w)) = root_focused w"
    and "scroll (snd (after_boot env host flt fr u w)) = scroll w"
  using assms
  by (simp_all add: after_boot_def Let_def route_query_def history_url_def commit_current_def)

lemma root_base_url:
  "BASE_PATH rooted_env = str ''/''"
  "withBase rooted_env (str ''/users'') = str ''//users''"
  "history_location bare_host (str ''//users'') = None"
proof -
  show b: "BASE_PATH rooted_env = str ''/''"
    by (simp add: rooted_env_def createRouter_eq test_config_def rooted_facts)
  show "withBase rooted_env (str ''/users'') = str ''//users''"
    by (simp add: withBase_def b rooted_facts)
  show "history_location bare_host (str ''//users'') = None"
    by (simp add: bare_host_def rooted_facts)
qed

lemma root_base_navigate:
  "fst (navigate rooted_env bare_host flt (str ''/users'') push_opts fresh_world)
     = Threw SecurityError"
  "cur_path (current (snd (navigate rooted_env bare_host flt (str ''/users'') push_opts
                             fresh_world))) = Some (str ''/users'')"
  "history_ops (snd (navigate rooted_env bare_host flt (str ''/users'') push_opts fresh_world))
     = []"
proof -
  have env: "compiled rooted_env = compiled test_env" "compiledFallback rooted_env = None"
    by (simp_all add: rooted_env_def test_env_def createRouter_eq test_config_def)
  have sb: "stripBase rooted_env (str ''/users'') = str ''/users''"
    by (simp add: stripBase_def root_base_url rooted_facts Let_def)
  have r: "resolve rooted_env (normalizePath (stripBase rooted_env (str ''/users''))) =
      Inr (Some \<lparr>path = str ''/users'', view = str ''users'', component = None,
                 params = Map.empty\<rparr>)"
    by (simp add: sb resolve_def env test_env_compiled rooted_facts users_42(6))
  have f: "root_attached fresh_world" "unboot (current fresh_world) = NotFunction"
    "cur_path (current fresh_world) = None" "controllers fresh_world = 0"
    "aborted fresh_world = []" "navController fresh_world = None"
    "history_ops fresh_world = []"
    by (simp_all add: fresh_world_def)
  let ?fr = "\<lparr>fr_appPath = normalizePath (stripBase rooted_env (str ''/users'')),
      fr_resolved = \<lparr>path = str ''/users'', view = str ''users'', component = None,
                      params = Map.empty\<rparr>,
      fr_searchStr = norm_search (search push_opts), fr_signal = controllers fresh_world,
      fr_replace = replace push_opts, fr_restoreScroll = restoreScroll push_opts\<rparr>"
  let ?w = "clear_root (save_scroll (transition_start rooted_env flt (abort_in_flight
          (log rooted_env (LogNavigate (cur_path (current fresh_world))
             (normalizePath (stripBase rooted_env (str ''/users'')))
             (view \<lparr>path = str ''/users'', view = str ''users'', component = None,
                     params = Map.empty\<rparr>)
             (params \<lparr>path = str ''/users'', view = str ''users'', component = None,
                       params = Map.empty\<rparr>)) fresh_world))))"
  have nav: "navigate rooted_env bare_host flt (str ''/users'') push_opts fresh_world =
      after_boot rooted_env bare_host flt ?fr NotFunction ?w"
    by (rule navigate_sync_eq [OF f(1) r _ f(2)]) (simp_all add: f)
  have live: "fr_signal ?fr \<notin> set (aborted ?w)"
    by (simp add: f abort_in_flight_eqs)
  have url: "history_url rooted_env ?fr = str ''//users''"
    by (simp add: history_url_def sb rooted_facts root_base_url norm_search_def push_opts_def)
  have u: "url_searchParams bare_host (history_url rooted_env ?fr) = Some []"
    by (simp add: bare_host_def)
  have h: "history_location bare_host (history_url rooted_env ?fr) = None"
    unfolding url by (rule root_base_url)
  show "fst (navigate rooted_env bare_host flt (str ''/users'') push_opts fresh_world)
     = Threw SecurityError"
    unfolding nav by (rule history_refused [OF live u h])
  show "cur_path (current (snd (navigate rooted_env bare_host flt (str ''/users'') push_opts
                             fresh_world))) = Some (str ''/users'')"
    unfolding nav history_refused(2) [OF live u h] by (simp add: sb rooted_facts)
  show "history_ops (snd (navigate rooted_env bare_host flt (str ''/users'') push_opts fresh_world))
     = []"
    unfolding nav history_refused(3) [OF live u h] by (simp add: f)
qed

section \<open>C6: stop\<close>

text \<open>
  C6, as stated, fails: after \<open>stop()\<close>, \<open>getCurrent()\<close> still reports the view,
  path and search that were mounted.
\<close>

theorem stop_does_not_reset:
  "getCurrent at_home = (Some (str ''home''), Some (str ''/''), [])
   \<and> getCurrent (step demo_env bare_host Stop at_home) = (Some (str ''home''), Some (str ''/''), [])"
  by (simp add: at_home_eq getCurrent_def stop_def Let_def)

text \<open>
  C6, amended: \<open>stop()\<close> leaves NavigationState as it was, so \<open>getCurrent()\<close>
  reports the same view, path and search as before; it detaches the two listeners,
  unsubscribes from the store and calls the current unmount handle if there is one, and
  does nothing else: the controller in flight and its token, the suspended navigations,
  the scroll ledger, the history, the location and the store are as before.
\<close>

theorem stop_keeps_current:
  "getCurrent (stop w) = getCurrent w \<and> current (stop w) = current w
   \<and> \<not> click_listener (stop w) \<and> \<not> popstate_listener (stop w) \<and> \<not> unsubGo (stop w)
   \<and> calls (stop w) =
       calls w @ (case unboot (current w) of NotFunction \<Rightarrow> [] | UnbootFn h \<Rightarrow> [CallUnboot h])
   \<and> stop w =
       w\<lparr>click_listener := False, popstate_listener := False, unsubGo := False,
         calls := calls w @ (case unboot (current w) of
                               NotFunction \<Rightarrow> [] | UnbootFn h \<Rightarrow> [CallUnboot h])\<rparr>
   \<and> navController (stop w) = navController w \<and> controllers (stop w) = controllers w
   \<and> aborted (stop w) = aborted w \<and> tasks (stop w) = tasks w
   \<and> scrollPositions (stop w) = scrollPositions w \<and> history_ops (stop w) = history_ops w
   \<and> location_pathname (stop w) = location_pathname w
   \<and> location_search (stop w) = location_search w
   \<and> store_state (stop w) = store_state w"
  by (simp add: stop_def getCurrent_def Let_def split: unboot_val.splits)

section \<open>C7: navigating to the current route\<close>

text \<open>
  C7, as stated, fails: \<open>navigate\<close> looks up the mount point before anything else.
  At \<open>/\<close>, once the mount point has left the document, navigating to \<open>/\<close> does not
  return: it throws the error of \<open>getRoot\<close>.
\<close>

theorem same_route_without_root:
  "cur_path (current detached_home) = Some (normalizePath (stripBase demo_env (str ''/'')))
   \<and> cur_search (current detached_home) = norm_search (search push_opts)
   \<and> navigate demo_env bare_host no_faults (str ''/'') push_opts detached_home
       = (Threw RootNotFound, detached_home)"
proof -
  have e: "detached_home = step demo_env bare_host (RootAttached False) at_home"
    by (simp add: detached_home_def at_home_def run_def)
  show ?thesis
    unfolding e
    by (simp add: at_home_eq navigate_def demo_paths norm_search_def push_opts_def)
qed

text \<open>
  C7, amended. In every reachable state, a call of \<open>navigate\<close> whose base-stripped,
  normalised path and whose search string are those of NavigationState ends at once and
  changes nothing (with debug logging on, the console gets its line): no view is
  unmounted or mounted, no history entry is written, no store key is written,
  NavigationState is the same. The call returns when the mount point is in the document,
  and throws the error of \<open>getRoot\<close> when it is not.
\<close>

theorem same_route_noop:
  assumes "reachable env host w"
    and "cur_path (current w) = Some (normalizePath (stripBase env pathname))"
    and "cur_search (current w) = norm_search (search opts)"
  shows "fst (navigate env host flt pathname opts w) =
           (if root_attached w then Returned else Threw RootNotFound)
     \<and> (snd (navigate env host flt pathname opts w))\<lparr>console := console w\<rparr> = w
     \<and> (\<not> debug_on env \<longrightarrow> snd (navigate env host flt pathname opts w) = w)"
proof -
  let ?appPath = "normalizePath (stripBase env pathname)"
  have "current_ok env w"
    using reachable_inv [OF assms(1)] by (simp add: inv_def)
  then obtain r where r: "resolve env ?appPath = Inr (Some r)"
    using assms(2) by (auto simp: current_ok_def)
  show ?thesis
    using assms(2,3) r by (simp add: navigate_def Let_def log_def)
qed

text \<open>
  C7, at an instance: at \<open>/\<close>, navigating to \<open>/\<close> or to \<open>/index.html\<close>.
\<close>

theorem same_route_noop_witness:
  "cur_path (current at_home) = Some (str ''/'')
   \<and> navigate demo_env bare_host no_faults (str ''/'') push_opts at_home = (Returned, at_home)
   \<and> navigate demo_env bare_host no_faults (str ''/index.html'') push_opts at_home
       = (Returned, at_home)"
proof -
  have r: "reachable demo_env bare_host at_home"
    unfolding at_home_def by (rule demo_reachable)
  have n: "normalizePath (str ''/index.html'') = str ''/''"
    by code_simp
  have p: "cur_path (current at_home) = Some (normalizePath (stripBase demo_env (str ''/'')))"
    "cur_path (current at_home) = Some (normalizePath (stripBase demo_env (str ''/index.html'')))"
    by (simp_all add: at_home_eq demo_paths n)
  have s: "cur_search (current at_home) = norm_search (search push_opts)"
    by (simp add: at_home_eq norm_search_def push_opts_def)
  have ra: "root_attached at_home"
    by (simp add: at_home_eq demo_world_def fresh_world_def)
  from same_route_noop [OF r p(1) s, of no_faults] ra
  have 1: "navigate demo_env bare_host no_faults (str ''/'') push_opts at_home = (Returned, at_home)"
    by (simp add: prod_eq_iff)
  from same_route_noop [OF r p(2) s, of no_faults] ra
  have 2: "navigate demo_env bare_host no_faults (str ''/index.html'') push_opts at_home
      = (Returned, at_home)"
    by (simp add: prod_eq_iff)
  from 1 2 p(1) show ?thesis by (simp add: demo_paths)
qed

section \<open>C8: navigateQuery\<close>

text \<open>
  C8 says that \<open>navigateQuery\<close> keeps the path. \<open>navigate\<close> strips the base path
  from the path it is given, and \<open>navigateQuery\<close> gives it \<open>current.path\<close>, from
  which the base path is already stripped. Under the base path \<open>/app\<close>, at the
  current path \<open>/app/x\<close> (the view \<open>inner\<close>), patching the query navigates to
  \<open>/x\<close> and mounts the view \<open>outer\<close>, for every host and every outcome of the
  collaborator calls.
\<close>

theorem navigateQuery_double_strip:
  "cur_path (current (inner_view host flt)) = Some (str ''/app/x'')
   \<and> viewKey (current (inner_view host flt)) = Some (str ''inner'')
   \<and> cur_path (current (snd (navigateQuery based_env host flt'
         [(str ''tab'', JStr (str ''posts''))] True (inner_view host flt)))) = Some (str ''/x'')
   \<and> viewKey (current (snd (navigateQuery based_env host flt'
         [(str ''tab'', JStr (str ''posts''))] True (inner_view host flt)))) = Some (str ''outer'')"
proof -
  let ?w1 = "inner_view host flt"
  have f: "root_attached fresh_world" "unboot (current fresh_world) = NotFunction"
    "cur_path (current fresh_world) = None" "controllers fresh_world = 0"
    "aborted fresh_world = []" "navController fresh_world = None"
    by (simp_all add: fresh_world_def)
  have r1: "resolve based_env (normalizePath (stripBase based_env (str ''/app/app/x''))) =
     Inr (Some \<lparr>path = str ''/app/x'', view = str ''inner'', component = None, params = Map.empty\<rparr>)"
    by (simp add: based_facts based_resolve)
  have w1: "current ?w1 = \<lparr>viewKey = Some (str ''inner''), unboot = NotFunction,
        cur_path = Some (str ''/app/x''), cur_search = []\<rparr>"
    "root_attached ?w1" "navController ?w1 = Some 0" "controllers ?w1 = 1" "aborted ?w1 = []"
    unfolding inner_view_def step.simps
    using navigate_sync [OF f(1) r1, of host flt push_opts] f
    by (simp_all add: based_facts norm_search_def push_opts_def)
  have r2: "resolve based_env (normalizePath (stripBase based_env (str ''/app/x''))) =
     Inr (Some \<lparr>path = str ''/x'', view = str ''outer'', component = None, params = Map.empty\<rparr>)"
    by (simp add: based_facts based_resolve)
  have p: "cur_path (current ?w1) \<noteq> Some (normalizePath (stripBase based_env (str ''/app/x'')))"
    by (simp add: w1 based_facts)
  have "current (snd (navigate based_env host flt' (str ''/app/x'') opts ?w1)) =
      \<lparr>viewKey = Some (str ''outer''), unboot = NotFunction, cur_path = Some (str ''/x''),
       cur_search = norm_search (search opts)\<rparr>" for opts
    using navigate_sync(1) [OF w1(2) r2 _ _ p, of host flt' opts]
    by (simp add: w1 based_facts)
  then show ?thesis
    by (simp add: navigateQuery_def Let_def w1 based_facts)
qed

section \<open>C9: the scroll ledger\<close>



section \<open>C10: resolve is not total\<close>

text \<open>
  C10. With the routes of the self-test, \<open>resolve\<close> throws \<open>URIError\<close> at
  \<open>/users/%\<close> and at \<open>/users/%zz\<close>, and so does \<open>navigate\<close>, leaving the state as
  it was.
\<close>

theorem resolve_not_total:
  "resolve test_env (str ''/users/%'') = Inl URIError
   \<and> resolve test_env (str ''/users/%zz'') = Inl URIError
   \<and> navigate test_env host flt (str ''/users/%'') opts fresh_world = (Threw URIError, fresh_world)"
proof -
  have a: "resolve test_env (str ''/users/%'') = Inl URIError"
    by (rule resolve_malformed_percent)
  have b: "resolve test_env (str ''/users/%zz'') = Inl URIError"
    by (simp add: resolve_def test_env_compiled malformed_percent_zz malformed_percent(5)
        match_index_def)
  have "stripBase test_env (str ''/users/%'') = str ''/users/%''"
    by (simp add: stripBase_def test_env_eq)
  then have c: "navigate test_env host flt (str ''/users/%'') opts fresh_world
      = (Threw URIError, fresh_world)"
    using a by (simp add: navigate_def malformed_percent(1) fresh_world_def)
  from a b c show ?thesis by blast
qed

end
